theory Spec2Isabelle
  imports Main "HOL-Library.Multiset"
begin

section \<open>Data model\<close>

text \<open>
  A document position is an object with two numeric fields, \<open>row\<close> and \<open>column\<close>.
  \<open>comparePoints\<close> is the comparison of the editor's range module that
  \<open>HTMLInstrumentation.js\<close> imports: \<^verbatim>\<open>p1.row - p2.row || p1.column - p2.column\<close>.
\<close>

record pos =
  row :: int
  column :: int

definition comparePoints :: "pos \<Rightarrow> pos \<Rightarrow> int" where
  "comparePoints p1 p2 =
     (if row p1 - row p2 \<noteq> 0 then row p1 - row p2 else column p1 - column p2)"

text \<open>
  The JavaScript values that occur as tag identifiers and attribute values: \<open>undefined\<close>,
  numbers and strings. \<open>truthy\<close> is JavaScript's conversion to a boolean.
\<close>

datatype jsval = Undefined | Num int | Str string

fun truthy :: "jsval \<Rightarrow> bool" where
  "truthy Undefined = False"
| "truthy (Num n) = (n \<noteq> 0)"
| "truthy (Str s) = (s \<noteq> [])"

text \<open>
  A node of the simple DOM is one JavaScript object. Its own properties are the record
  \<open>props\<close>; an element also owns the array \<open>children\<close>, which a text node does not have
  (\<^verbatim>\<open>node.children\<close> is \<open>undefined\<close> there, which is how the code tells the two apart).
  \<open>oid\<close> is the identity of the object (its address): references to a node, as stored in a
  \<open>nodeMap\<close> or in the \<open>parent\<close> back-reference, are object identities. \<open>tag\<close> and
  \<open>attributes\<close> are meaningful for elements, \<open>content\<close> for text nodes.
\<close>

record props =
  oid :: nat
  tagID :: jsval
  tag :: string
  attributes :: "(string \<times> jsval) list"
  content :: string
  startPos :: pos
  endPos :: pos
  parent :: "nat option"
  signature :: nat

datatype node = Element (props: props) (children: "node list") | Text (props: props)

fun isElement :: "node \<Rightarrow> bool" where
  "isElement (Element pr cs) = True"
| "isElement (Text pr) = False"

text \<open>All nodes of a tree, parents before children, children in document order.\<close>

fun nodes :: "node \<Rightarrow> node list" where
  "nodes (Element pr cs) = Element pr cs # concat (map nodes cs)"
| "nodes (Text pr) = [Text pr]"

text \<open>
  An edit delta as the editor reports it: the action name (\<open>insertText\<close>, \<open>insertLines\<close>,
  \<open>removeText\<close>, \<open>removeLines\<close>), the range, and the text or, for line actions, the lines.
\<close>

record range =
  rstart :: pos
  rend :: pos

record delta =
  action :: string
  drange :: range
  dtext :: "string option"
  dlines :: "string list"

section \<open>The position tracker: \<open>updatePositions\<close>\<close>

text \<open>\<^verbatim>\<open>var sign = delta.action[0] == "i" ? 1 : -1\<close>\<close>

definition sign :: "delta \<Rightarrow> int" where
  "sign d = (case action d of c # _ \<Rightarrow> (if c = CHR ''i'' then 1 else - 1) | [] \<Rightarrow> - 1)"

definition rowChange :: "delta \<Rightarrow> int" where
  "rowChange d = sign d * (row (rend (drange d)) - row (rstart (drange d)))"

definition columnChange :: "delta \<Rightarrow> int" where
  "columnChange d = sign d * (column (rend (drange d)) - column (rstart (drange d)))"

text \<open>The inner function \<open>update(pos)\<close> of \<open>updatePositions\<close>; it mutates one position.\<close>

definition update_pos :: "delta \<Rightarrow> pos \<Rightarrow> pos" where
  "update_pos d p =
     (let p1 = (if row p = (if sign d = - 1 then row (rend (drange d)) else row (rstart (drange d)))
                then p\<lparr>column := column p + columnChange d\<rparr> else p)
      in if rowChange d \<noteq> 0 then p1\<lparr>row := row p1 + rowChange d\<rparr> else p1)"

text \<open>
  The inner function \<open>walk(node)\<close>. It returns what the JavaScript function returns, as a
  truth value (\<open>undefined\<close> is falsy), together with the mutated node.
  \<open>walk_some\<close> is \<^verbatim>\<open>node.children.some(walk)\<close>: it stops at the first child for which
  \<open>walk\<close> returns a truthy value.
\<close>

fun walk :: "delta \<Rightarrow> node \<Rightarrow> bool \<times> node"
  and walk_some :: "delta \<Rightarrow> node list \<Rightarrow> bool \<times> node list" where
  "walk d (Text pr) = (False, Text pr)"
| "walk d (Element pr cs) =
     (let sp = startPos pr; ep = endPos pr;
          start = rstart (drange d); end' = rend (drange d)
      in if sign d = 1 then
           (if comparePoints start sp < 0 then
              (let pr' = pr\<lparr>startPos := update_pos d sp, endPos := update_pos d ep\<rparr>
               in if rowChange d = 0 \<and> row (startPos pr') > row start
                  then (False, Element pr' cs)
                  else (let (b, cs') = walk_some d cs in (b, Element pr' cs')))
            else if comparePoints start ep < 0 then
              (let pr' = pr\<lparr>endPos := update_pos d ep\<rparr>;
                   (b, cs') = walk_some d cs
               in (b, Element pr' cs'))
            else (False, Element pr cs))
         else
           (if comparePoints end' sp \<le> 0 then
              (let pr' = pr\<lparr>startPos := update_pos d sp, endPos := update_pos d ep\<rparr>
               in if rowChange d = 0 \<and> row (startPos pr') > row end'
                  then (False, Element pr' cs)
                  else (let (b, cs') = walk_some d cs in (b, Element pr' cs')))
            else if comparePoints start ep \<le> 0 then
              (let pr' = pr\<lparr>endPos := update_pos d ep\<rparr>;
                   (b, cs') = walk_some d cs
               in (b, Element pr' cs'))
            else (False, Element pr cs)))"
| "walk_some d [] = (False, [])"
| "walk_some d (c # cs) =
     (let (b, c') = walk d c
      in if b then (True, c' # cs)
         else (let (b', cs') = walk_some d cs in (b', c' # cs')))"

definition updatePositions :: "node \<Rightarrow> delta \<Rightarrow> node" where
  "updatePositions n d = snd (walk d n)"

text \<open>
  What \<open>walk\<close> does to the properties of one element, and whether it goes on to the
  children: the body of \<open>walk\<close> up to its last line, used to reason about it.
\<close>

definition visit :: "delta \<Rightarrow> props \<Rightarrow> props \<times> bool" where
  "visit d pr =
     (let sp = startPos pr; ep = endPos pr;
          start = rstart (drange d); end' = rend (drange d)
      in if sign d = 1 then
           (if comparePoints start sp < 0 then
              (pr\<lparr>startPos := update_pos d sp, endPos := update_pos d ep\<rparr>,
               \<not> (rowChange d = 0 \<and> row (update_pos d sp) > row start))
            else if comparePoints start ep < 0 then (pr\<lparr>endPos := update_pos d ep\<rparr>, True)
            else (pr, False))
         else
           (if comparePoints end' sp \<le> 0 then
              (pr\<lparr>startPos := update_pos d sp, endPos := update_pos d ep\<rparr>,
               \<not> (rowChange d = 0 \<and> row (update_pos d sp) > row end'))
            else if comparePoints start ep \<le> 0 then (pr\<lparr>endPos := update_pos d ep\<rparr>, True)
            else (pr, False)))"

text \<open>The structure of a tree with the boundaries of its elements blanked out.\<close>

fun erase :: "node \<Rightarrow> node" where
  "erase (Element pr cs) =
     Element (pr\<lparr>startPos := \<lparr>row = 0, column = 0\<rparr>, endPos := \<lparr>row = 0, column = 0\<rparr>\<rparr>)
       (map erase cs)"
| "erase (Text pr) = Text pr"

text \<open>
  The boundaries of the elements of a tree, in document order of the elements: for each
  element its \<open>startPos\<close>, then its \<open>endPos\<close>, then those of its children.
\<close>

fun bounds :: "node \<Rightarrow> pos list" where
  "bounds (Element pr cs) = startPos pr # endPos pr # concat (map bounds cs)"
| "bounds (Text pr) = []"

text \<open>
  The trees the builder makes: an element ends at or after its start, and the boundaries of
  everything below an element lie within the element's span.
\<close>

fun nested :: "node \<Rightarrow> bool" where
  "nested (Element pr cs) =
     (comparePoints (startPos pr) (endPos pr) \<le> 0 \<and>
      (\<forall>c \<in> set cs. nested c \<and>
         (\<forall>b \<in> set (bounds c).
            comparePoints (startPos pr) b \<le> 0 \<and> comparePoints b (endPos pr) \<le> 0)))"
| "nested (Text pr) = True"

text \<open>
  The shift of a boundary \<open>b\<close> under an insertion at \<open>P\<close> of \<open>R\<close> rows and \<open>C\<close> trailing
  columns, in the words of the specification, with "at or after \<open>P\<close>" read as "strictly
  after \<open>P\<close>": a boundary after \<open>P\<close> moves down by \<open>R\<close> rows, and right by \<open>C\<close> columns
  when it is on the row of \<open>P\<close>; a boundary at or before \<open>P\<close> stays.
\<close>

definition shift_insert :: "pos \<Rightarrow> int \<Rightarrow> int \<Rightarrow> pos \<Rightarrow> pos" where
  "shift_insert P R C b =
     (if comparePoints P b < 0
      then \<lparr>row = row b + R, column = (if row b = row P then column b + C else column b)\<rparr>
      else b)"

text \<open>
  The inverse shift for a deletion of the range from \<open>S\<close> to \<open>E\<close>, anchored at \<open>E\<close>, and what
  is stated of a boundary \<open>b\<close> that becomes \<open>b'\<close>: a boundary at or after \<open>E\<close> is shifted
  back, a boundary before \<open>S\<close> stays. Nothing is said of a boundary inside the deleted range.
\<close>

definition shift_delete :: "pos \<Rightarrow> pos \<Rightarrow> pos \<Rightarrow> pos" where
  "shift_delete S E b =
     \<lparr>row = row b - (row E - row S),
      column = (if row b = row E then column b - (column E - column S) else column b)\<rparr>"

definition deleted_ok :: "pos \<Rightarrow> pos \<Rightarrow> pos \<Rightarrow> pos \<Rightarrow> bool" where
  "deleted_ok S E b b' =
     ((comparePoints E b \<le> 0 \<longrightarrow> b' = shift_delete S E b) \<and>
      (comparePoints b S < 0 \<longrightarrow> b' = b))"

text \<open>
  The delta the editor reports for the insertion of a string \<open>s\<close> without line breaks at
  row \<open>r\<close>, column \<open>c\<close>: the range ends on the same row, \<open>length s\<close> columns further.
\<close>

definition single_line_insert :: "int \<Rightarrow> int \<Rightarrow> string \<Rightarrow> delta" where
  "single_line_insert r c s =
     \<lparr>action = ''insertText'',
      drange = \<lparr>rstart = \<lparr>row = r, column = c\<rparr>,
                rend = \<lparr>row = r, column = c + int (length s)\<rparr>\<rparr>,
      dtext = Some s, dlines = []\<rparr>"

section \<open>Tag identifiers as keys, trees with their node map, the session\<close>

text \<open>
  A \<open>nodeMap\<close> is a JavaScript object used as a dictionary: its keys are the strings that
  the tag identifiers convert to (a number to its decimal numeral), its values are
  references to nodes. \<open>keyOf\<close> is that conversion.
\<close>

function show_nat :: "nat \<Rightarrow> string" where
  "show_nat n =
     (if n < 10 then [''0123456789'' ! n]
      else show_nat (n div 10) @ [''0123456789'' ! (n mod 10)])"
  by pat_completeness auto
termination
  by (relation "measure id") auto

declare show_nat.simps [simp del]

definition show_int :: "int \<Rightarrow> string" where
  "show_int i = (if i < 0 then CHR ''-'' # show_nat (nat (- i)) else show_nat (nat i))"

fun keyOf :: "jsval \<Rightarrow> string" where
  "keyOf Undefined = ''undefined''"
| "keyOf (Num n) = show_int n"
| "keyOf (Str s) = s"

text \<open>
  The root node of a tree carries two more properties: \<open>nodeMap\<close>, and \<open>errors\<close> once
  \<open>getUnappliedEditList\<close> has stored the errors of an update on it. \<open>simpleDOM\<close> is such a
  root object. The session is the editor's object: \<open>sdom\<close> is its property \<open>dom\<close> (the
  cached tree, absent before the first scan); \<open>getValue\<close>, \<open>getTextRange\<close> and
  \<open>positionToIndex\<close> are the editor's own functions, outside this repository, and are
  taken as they are.
\<close>

type_synonym nodemap = "string \<Rightarrow> nat option"

record simpleDOM =
  root :: node
  nodeMap :: nodemap
  errors :: "string list option"

record session =
  sdom :: "simpleDOM option"
  getValue :: string
  getTextRange :: "pos \<Rightarrow> pos \<Rightarrow> string"
  positionToIndex :: "pos \<Rightarrow> int"

section \<open>The node at a position: \<open>findNode\<close>\<close>

text \<open>\<^verbatim>\<open>node && node.children || []\<close>: the children of an element, nothing for a text node.\<close>

fun kids :: "node \<Rightarrow> node list" where
  "kids (Element pr cs) = cs"
| "kids (Text pr) = []"

text \<open>
  \<open>findNode\<close> and the \<open>for\<close> loop in it. The loop skips a child without a \<open>children\<close>
  array (\<open>continue\<close>), descends into the first child that ends after the position when the
  position is after its start, and otherwise stops (\<open>break\<close>) with the current node.
\<close>

lemma size_kids: "size_list size (kids n) \<le> size n"
  by (cases n) simp_all

function findNode :: "node \<Rightarrow> pos \<Rightarrow> bool \<Rightarrow> node"
  and findNode_loop :: "node \<Rightarrow> node list \<Rightarrow> pos \<Rightarrow> bool \<Rightarrow> node" where
  "findNode n p preferParent = findNode_loop n (kids n) p preferParent"
| "findNode_loop n [] p preferParent = n"
| "findNode_loop n (Text pr # rest) p preferParent = findNode_loop n rest p preferParent"
| "findNode_loop n (Element pr cs # rest) p preferParent =
     (let cmp = comparePoints p (endPos pr)
      in if cmp < 0 then
           (if comparePoints p (startPos pr) > 0
            then findNode (Element pr cs) p preferParent
            else n)
         else if preferParent \<and> cmp = 0 then n
         else findNode_loop n rest p preferParent)"
  by pat_completeness auto
termination
  by (relation "measure (\<lambda>x. case x of Inl (n, p, b) \<Rightarrow> 2 * size n + 1
                                  | Inr (n, cs, p, b) \<Rightarrow> 2 * size_list size cs)")
     (auto simp: size_kids less_Suc_eq_le)

text \<open>
  \<open>_getNodeAtDocumentPos\<close> and \<open>_getTagIDAtDocumentPos\<close> (Isabelle names cannot start with an
  underscore). With no cached tree \<open>findNode\<close> gets \<open>undefined\<close> and returns it.
\<close>

definition getNodeAtDocumentPos :: "session \<Rightarrow> pos \<Rightarrow> bool \<Rightarrow> node option" where
  "getNodeAtDocumentPos s p preferParent =
     (case sdom s of None \<Rightarrow> None | Some d \<Rightarrow> Some (findNode (root d) p preferParent))"

definition getTagIDAtDocumentPos :: "session \<Rightarrow> pos \<Rightarrow> jsval" where
  "getTagIDAtDocumentPos s p =
     (case getNodeAtDocumentPos s p False of Some m \<Rightarrow> tagID (props m) | None \<Rightarrow> Num (- 1))"


section \<open>The edit classifier and the constructor of the updater\<close>

text \<open>
  \<^verbatim>\<open>(/[<>\/=\"\']/).test(text)\<close>: the regular expression is one character class, so the
  test scans the text for a character of the class. A character of the model is a byte of
  the UTF-8 text; the six characters of the class are ASCII, and no byte of a longer UTF-8
  sequence is.
\<close>

definition dangerous_chars :: "char list" where
  "dangerous_chars = [CHR ''<'', CHR ''>'', CHR ''/'', CHR ''='', CHR 0x22, CHR 0x27]"

fun isDangerousEdit :: "string \<Rightarrow> bool" where
  "isDangerousEdit [] = False"
| "isDangerousEdit (c # cs) = (c \<in> set dangerous_chars \<or> isDangerousEdit cs)"

text \<open>
  \<^verbatim>\<open>text = delta.text; if (typeof text != "string") text = delta.lines.join("\n")\<close>
\<close>

fun join_lines :: "string list \<Rightarrow> string" where
  "join_lines [] = []"
| "join_lines [l] = l"
| "join_lines (l # ls) = l @ CHR 0x0A # join_lines ls"

definition delta_text :: "delta \<Rightarrow> string" where
  "delta_text d = (case dtext d of Some s \<Rightarrow> s | None \<Rightarrow> join_lines (dlines d))"

text \<open>
  The fields of a \<open>DOMUpdater\<close> object. \<open>btext\<close>, \<open>startOffset\<close> and \<open>startOffsetPos\<close> are
  what the constructor hands to the builder's constructor; \<open>changedTagID\<close> is \<open>Undefined\<close>
  when it was never assigned; \<open>uerrors\<close> is the builder's \<open>errors\<close> property.
\<close>

record updater =
  isIncremental :: bool
  changedTagID :: jsval
  btext :: string
  startOffset :: int
  startOffsetPos :: "pos option"
  usession :: session
  previousDOM :: "simpleDOM option"
  uerrors :: "string list option"

text \<open>
  \<open>previousDOM\<close> and \<open>session.dom\<close> are references, and at every call in this file they are
  the same object. Two roots are the same object when they have the same identity;
  \<open>mutate_alias before after s\<close> lets the session see a mutation of the object \<open>before\<close>
  when \<open>session.dom\<close> is that object.
\<close>

definition same_object :: "simpleDOM \<Rightarrow> simpleDOM \<Rightarrow> bool" where
  "same_object a b = (oid (props (root a)) = oid (props (root b)))"

definition mutate_alias :: "simpleDOM option \<Rightarrow> simpleDOM \<Rightarrow> session \<Rightarrow> session" where
  "mutate_alias before after s =
     (case (before, sdom s) of
        (Some b, Some sd) \<Rightarrow> if same_object b sd then s\<lparr>sdom := Some after\<rparr> else s
      | _ \<Rightarrow> s)"

text \<open>
  The constructor \<open>DOMUpdater(previousDOM, session, delta)\<close>. The position tracker runs
  first; then the edit is classified, and for a text that is not empty and not dangerous
  the node at the start of the edit (preferring the parent) gives \<open>changedTagID\<close> and the
  span to parse again. \<^verbatim>\<open>Range.fromPoints\<close> always returns a range, so \<^verbatim>\<open>if (range)\<close>
  holds. \<^verbatim>\<open>if (!this.changedTagID) text = session.getValue()\<close> is the last step.
\<close>

definition DOMUpdater :: "simpleDOM option \<Rightarrow> session \<Rightarrow> delta option \<Rightarrow> updater" where
  "DOMUpdater previousDOM0 session0 delta0 =
     (let text0 = map_option delta_text delta0;
          prev = (case (delta0, previousDOM0) of
                    (Some d, Some p) \<Rightarrow> Some (p\<lparr>root := updatePositions (root p) d\<rparr>)
                  | _ \<Rightarrow> previousDOM0);
          s = (case prev of Some p \<Rightarrow> mutate_alias previousDOM0 p session0 | None \<Rightarrow> session0);
          full = \<lparr>isIncremental = False, changedTagID = Undefined, btext = getValue s,
                  startOffset = 0, startOffsetPos = None, usession = s, previousDOM = prev,
                  uerrors = None\<rparr>
      in case (text0, delta0) of
           (Some t, Some d) \<Rightarrow>
             if t \<noteq> [] \<and> \<not> isDangerousEdit t then
               (case getNodeAtDocumentPos s (rstart (drange d)) True of
                  Some startNode \<Rightarrow>
                    full\<lparr>isIncremental := True,
                         changedTagID := tagID (props startNode),
                         btext := (if truthy (tagID (props startNode))
                                   then getTextRange s (startPos (props startNode)) (endPos (props startNode))
                                   else getValue s),
                         startOffset := positionToIndex s (startPos (props startNode)),
                         startOffsetPos := Some (startPos (props startNode))\<rparr>
                | None \<Rightarrow> full)
             else full
         | _ \<Rightarrow> full)"

section \<open>The update: \<open>DOMUpdater.prototype.update\<close>\<close>

text \<open>
  What a call can throw: a \<open>TypeError\<close> (a property of \<open>undefined\<close> or \<open>null\<close> is read),
  an exception of the builder, and \<open>Detached\<close>, which is not a JavaScript exception: a
  reference leads to an object that is not in the tree at hand, which this model of
  references cannot follow.
\<close>

datatype error = TypeError | Detached | BuildException

text \<open>
  Following a reference into a tree, mutating the object a reference leads to, and
  \<^verbatim>\<open>children.indexOf(node)\<close>, which compares identities.
\<close>

fun find_obj :: "nat \<Rightarrow> node \<Rightarrow> node option"
  and find_objs :: "nat \<Rightarrow> node list \<Rightarrow> node option" where
  "find_obj x (Text pr) = (if oid pr = x then Some (Text pr) else None)"
| "find_obj x (Element pr cs) = (if oid pr = x then Some (Element pr cs) else find_objs x cs)"
| "find_objs x [] = None"
| "find_objs x (c # cs) = (case find_obj x c of Some n \<Rightarrow> Some n | None \<Rightarrow> find_objs x cs)"

fun map_obj :: "nat \<Rightarrow> (node \<Rightarrow> node) \<Rightarrow> node \<Rightarrow> node" where
  "map_obj x f (Text pr) = (if oid pr = x then f (Text pr) else Text pr)"
| "map_obj x f (Element pr cs) =
     (if oid pr = x then f (Element pr cs) else Element pr (map (map_obj x f) cs))"

fun indexOf :: "node list \<Rightarrow> nat \<Rightarrow> nat option" where
  "indexOf [] x = None"
| "indexOf (c # cs) x = (if oid (props c) = x then Some 0 else map_option Suc (indexOf cs x))"

text \<open>\<open>_buildNodeMap\<close>: a node with a falsy \<open>tagID\<close> gets no entry.\<close>

fun buildNodeMap_walk :: "node \<Rightarrow> nodemap \<Rightarrow> nodemap"
  and buildNodeMap_each :: "node list \<Rightarrow> nodemap \<Rightarrow> nodemap" where
  "buildNodeMap_walk (Text pr) m = (if truthy (tagID pr) then m(keyOf (tagID pr) \<mapsto> oid pr) else m)"
| "buildNodeMap_walk (Element pr cs) m =
     buildNodeMap_each cs (if truthy (tagID pr) then m(keyOf (tagID pr) \<mapsto> oid pr) else m)"
| "buildNodeMap_each [] m = m"
| "buildNodeMap_each (c # cs) m = buildNodeMap_each cs (buildNodeMap_walk c m)"

definition buildNodeMap :: "node \<Rightarrow> nodemap" where
  "buildNodeMap n = buildNodeMap_walk n Map.empty"

text \<open>
  \<open>_handleDeletions\<close> deletes from \<open>nodeMap\<close> every key of \<open>oldSubtreeMap\<close> that is not a key
  of \<open>newSubtreeMap\<close>. \<open>mixin\<close> is the function the file imports under the name \<open>extend\<close>:
  it copies every entry of its second argument into the first.
\<close>

definition handleDeletions :: "nodemap \<Rightarrow> nodemap \<Rightarrow> nodemap \<Rightarrow> nodemap" where
  "handleDeletions nm oldSubtreeMap newSubtreeMap =
     (\<lambda>key. if oldSubtreeMap key \<noteq> None \<and> newSubtreeMap key = None then None else nm key)"

definition mixin :: "nodemap \<Rightarrow> nodemap \<Rightarrow> nodemap" where
  "mixin a b = a ++ b"

text \<open>
  Modelled from the spec: \<open>SimpleNode.update\<close> is in the module \<open>HTMLSimpleDOM\<close>, outside
  \<open>HTMLInstrumentation.js\<close>. The spec calls \<open>signature\<close> an opaque fingerprint of the subtree's content that the
  updater recomputes; \<open>hash\<close> is that fingerprint, taken as a parameter.
\<close>

definition node_update :: "(node \<Rightarrow> nat) \<Rightarrow> node \<Rightarrow> node" where
  "node_update hash n =
     (case n of Element pr cs \<Rightarrow> Element (pr\<lparr>signature := hash n\<rparr>) cs
              | Text pr \<Rightarrow> Text (pr\<lparr>signature := hash n\<rparr>))"

text \<open>
  \<^verbatim>\<open>while (curParent) { curParent.update(); curParent = curParent.parent; }\<close>
  The loop follows the \<open>parent\<close> references, which are data: on a cyclic chain it does not
  end, and the value is \<open>None\<close>.
\<close>

partial_function (option) update_parents ::
  "(node \<Rightarrow> nat) \<Rightarrow> node \<Rightarrow> nat option \<Rightarrow> (error + node) option" where
  "update_parents hash t curParent =
     (case curParent of
        None \<Rightarrow> Some (Inr t)
      | Some p \<Rightarrow>
          (case find_obj p t of
             None \<Rightarrow> Some (Inl Detached)
           | Some pn \<Rightarrow> update_parents hash (map_obj p (node_update hash) t) (parent (props pn))))"

text \<open>
  The object \<open>update\<close> returns, and the builder. \<open>Builder.prototype.build\<close> is in
  \<open>HTMLSimpleDOM\<close>, not among the sources, so it is a parameter: from the updater it
  throws, or returns the root of the parsed tree with its \<open>nodeMap\<close> (\<open>null\<close> when the
  text cannot be parsed) and leaves its \<open>errors\<close>.
\<close>

record result =
  newDOM :: simpleDOM
  oldSubtree :: "simpleDOM option"
  newSubtree :: simpleDOM

type_synonym builder = "updater \<Rightarrow> error + (simpleDOM option \<times> string list option)"

text \<open>\<^verbatim>\<open>node.parent = ...\<close> and \<^verbatim>\<open>parent.children[childIndex] = newSubtree\<close>.\<close>

definition set_parent :: "nat option \<Rightarrow> node \<Rightarrow> node" where
  "set_parent par n =
     (case n of Element pr cs \<Rightarrow> Element (pr\<lparr>parent := par\<rparr>) cs
              | Text pr \<Rightarrow> Text (pr\<lparr>parent := par\<rparr>))"

definition set_child :: "nat \<Rightarrow> node \<Rightarrow> node \<Rightarrow> node" where
  "set_child i c n =
     (case n of Element pr cs \<Rightarrow> Element pr (cs[i := c]) | Text pr \<Rightarrow> Text pr)"

text \<open>
  \<open>update\<close> returns the result (\<open>None\<close> for \<open>null\<close>) or the exception, and the updater after
  it, whose \<open>previousDOM\<close> and session show the mutations.
\<close>

definition update :: "(node \<Rightarrow> nat) \<Rightarrow> builder \<Rightarrow> updater \<Rightarrow>
    ((error + result option) \<times> updater) option" where
  "update hash build u =
     (case build u of
        Inl e \<Rightarrow> Some (Inl e, u)
      | Inr (None, errs) \<Rightarrow> Some (Inr None, u\<lparr>uerrors := errs\<rparr>)
      | Inr (Some newSub, errs) \<Rightarrow>
          (let u1 = u\<lparr>uerrors := errs\<rparr>;
               res = \<lparr>newDOM = newSub, oldSubtree = previousDOM u, newSubtree = newSub\<rparr>
           in if truthy (changedTagID u) then
                (case previousDOM u of
                   None \<Rightarrow> Some (Inl TypeError, u1)
                 | Some prev \<Rightarrow>
                     (case nodeMap prev (keyOf (changedTagID u)) of
                        None \<Rightarrow> Some (Inl TypeError, u1)
                      | Some ob \<Rightarrow>
                          (case find_obj ob (root prev) of
                             None \<Rightarrow> Some (Inl Detached, u1)
                           | Some old \<Rightarrow>
                               (case parent (props old) of
                                  None \<Rightarrow> Some (Inr (Some res), u1)
                                | Some p \<Rightarrow>
                                    (case find_obj p (root prev) of
                                       None \<Rightarrow> Some (Inl Detached, u1)
                                     | Some (Text ppr) \<Rightarrow> Some (Inl TypeError, u1)
                                     | Some (Element ppr pcs) \<Rightarrow>
                                         (case indexOf pcs ob of
                                            None \<Rightarrow> Some (Inr (Some res), u1)
                                          | Some childIndex \<Rightarrow>
                                              (let old' = set_parent None old;
                                                   new' = set_parent (Some p) (root newSub);
                                                   t1 = map_obj p (set_child childIndex new') (root prev);
                                                   m1 = mixin (nodeMap prev) (nodeMap newSub);
                                                   oldMap = buildNodeMap old';
                                                   m2 = handleDeletions m1 oldMap (nodeMap newSub)
                                               in case update_parents hash t1 (Some p) of
                                                    None \<Rightarrow> None
                                                  | Some (Inl e) \<Rightarrow> Some (Inl e, u1)
                                                  | Some (Inr t2) \<Rightarrow>
                                                      (let prev' = prev\<lparr>root := t2, nodeMap := m2\<rparr>
                                                       in Some (Inr (Some
                                                            \<lparr>newDOM = prev',
                                                             oldSubtree = Some \<lparr>root = old', nodeMap = oldMap, errors = None\<rparr>,
                                                             newSubtree = newSub\<lparr>root := new'\<rparr>\<rparr>),
                                                          u1\<lparr>previousDOM := Some prev',
                                                             usession := mutate_alias (Some prev) prev' (usession u1)\<rparr>)))))))))
              else Some (Inr (Some res), u1\<lparr>usession := (usession u1)\<lparr>sdom := Some newSub\<rparr>\<rparr>)))"


section \<open>\<open>_updateDOM\<close> and \<open>getUnappliedEditList\<close>\<close>

text \<open>
  The object \<open>_updateDOM\<close> returns; a property that is not set is \<open>None\<close>. The differ
  \<open>HTMLDOMDiff.domdiff\<close> is not among the sources and is a parameter. Deleting the
  \<open>nodeMap\<close> of the spliced subtree changes nothing in this model, where only roots carry one.
\<close>

record 'e update_result =
  r_errors :: "string list option"
  r_dom :: "simpleDOM option"
  r_edits :: "'e option"
  r_wasIncremental :: "bool option"

definition updateDOM ::
  "(node \<Rightarrow> nat) \<Rightarrow> builder \<Rightarrow> (simpleDOM option \<Rightarrow> simpleDOM \<Rightarrow> 'e) \<Rightarrow>
   simpleDOM option \<Rightarrow> session \<Rightarrow> delta option \<Rightarrow>
   ((error + 'e update_result) \<times> updater) option" where
  "updateDOM hash build domdiff previousDOM0 session0 delta0 =
     (let updater = DOMUpdater previousDOM0 session0 delta0
      in case update hash build updater of
           None \<Rightarrow> None
         | Some (Inl e, u) \<Rightarrow> Some (Inl e, u)
         | Some (Inr None, u) \<Rightarrow>
             Some (Inr \<lparr>r_errors = uerrors u, r_dom = None, r_edits = None,
                        r_wasIncremental = None\<rparr>, u)
         | Some (Inr (Some res), u) \<Rightarrow>
             (let edits = domdiff (oldSubtree res) (newSubtree res)
              in Some (Inr \<lparr>r_errors = uerrors u, r_dom = Some (newDOM res),
                            r_edits = Some edits,
                            r_wasIncremental = Some (isIncremental u)\<rparr>, u)))"

text \<open>
  \<open>getUnappliedEditList\<close>: \<open>dom\<close> is the object \<open>session.dom\<close> at entry, which is the
  updater's \<open>previousDOM\<close>; after the update it gets the errors, and the session gets the
  new tree when there is one. A tree the builder returns consists of new objects.
\<close>

definition getUnappliedEditList ::
  "(node \<Rightarrow> nat) \<Rightarrow> builder \<Rightarrow> (simpleDOM option \<Rightarrow> simpleDOM \<Rightarrow> 'e) \<Rightarrow>
   session \<Rightarrow> delta option \<Rightarrow> ((error + 'e update_result) \<times> session) option" where
  "getUnappliedEditList hash build domdiff session0 delta0 =
     (let dom0 = sdom session0
      in case updateDOM hash build domdiff dom0 session0 delta0 of
           None \<Rightarrow> None
         | Some (Inl e, u) \<Rightarrow> Some (Inl e, usession u)
         | Some (Inr res, u) \<Rightarrow>
             (let old = (case (previousDOM u, r_errors res) of
                           (Some d, Some es) \<Rightarrow> Some (d\<lparr>errors := Some es\<rparr>)
                         | (d, _) \<Rightarrow> d);
                  s1 = (case old of Some d \<Rightarrow> mutate_alias old d (usession u)
                                  | None \<Rightarrow> usession u);
                  rdom = (case (r_dom res, old) of
                            (Some rd, Some d) \<Rightarrow> Some (if same_object rd d then d else rd)
                          | (rd, _) \<Rightarrow> rd);
                  s2 = (case rdom of Some rd \<Rightarrow> s1\<lparr>sdom := Some rd\<rparr> | None \<Rightarrow> s1)
              in Some (Inr (res\<lparr>r_dom := rdom\<rparr>), s2)))"

section \<open>The identifier policy: \<open>getID\<close>\<close>

text \<open>
  \<open>_hasAncestorWithID\<close> walks the \<open>parent\<close> chain of the tag the builder is working on. That
  chain is the builder's stack of open tags; it is given as the list of the ancestors,
  nearest first.
\<close>

fun hasAncestorWithID :: "props list \<Rightarrow> jsval \<Rightarrow> bool" where
  "hasAncestorWithID [] i = False"
| "hasAncestorWithID (ancestor # rest) i =
     (if tagID ancestor \<noteq> i then hasAncestorWithID rest i else True)"

text \<open>
  \<open>getID\<close>. \<open>HTMLSimpleDOM._offsetPos\<close> and the builder's \<open>getNewID\<close> are not among the
  sources; both are parameters, \<open>getNewID\<close> with the state \<open>g\<close> of the identifier generator.
\<close>

definition getID ::
  "(pos \<Rightarrow> int \<Rightarrow> pos) \<Rightarrow> ('g \<Rightarrow> jsval \<times> 'g) \<Rightarrow> updater \<Rightarrow> 'g \<Rightarrow> props \<Rightarrow> props list \<Rightarrow>
   error + (jsval \<times> 'g)" where
  "getID offsetPos getNewID u g newTag ancestors =
     (let currentTagID = getTagIDAtDocumentPos (usession u) (offsetPos (startPos newTag) 1)
      in if currentTagID = Num (- 1) \<or> hasAncestorWithID ancestors currentTagID
         then Inr (getNewID g)
         else (case previousDOM u of
                 None \<Rightarrow> Inl TypeError
               | Some prev \<Rightarrow>
                   (case nodeMap prev (keyOf currentTagID) of
                      None \<Rightarrow> Inr (getNewID g)
                    | Some ob \<Rightarrow>
                        (case find_obj ob (root prev) of
                           None \<Rightarrow> Inl Detached
                         | Some oldNode \<Rightarrow>
                             if tag (props oldNode) \<noteq> tag newTag then Inr (getNewID g)
                             else Inr (currentTagID, g)))))"

section \<open>The reconciler: \<open>_processBrowserSimpleDOM\<close> and \<open>_getBrowserDiff\<close>\<close>

text \<open>Reading and deleting a property of the \<open>attributes\<close> object.\<close>

definition attr_get :: "(string \<times> jsval) list \<Rightarrow> string \<Rightarrow> jsval" where
  "attr_get as k = (case map_of as k of Some v \<Rightarrow> v | None \<Rightarrow> Undefined)"

definition attr_delete :: "string \<Rightarrow> (string \<times> jsval) list \<Rightarrow> (string \<times> jsval) list" where
  "attr_delete k as = filter (\<lambda>kv. fst kv \<noteq> k) as"

text \<open>
  \<open>_processElement\<close> and the \<open>forEach\<close> over the children in it. The state is the local
  \<open>nodeMap\<close> and the variable \<open>root\<close>. \<open>HTMLSimpleDOM.getTextNodeID\<close> is in another
  module, \<open>HTMLSimpleDOM\<close>: it is a parameter that gets the parent as it is at the call (the children
  before the text node processed, those after it not yet) and the index of the text node.
\<close>

type_synonym pstate = "nodemap \<times> node option"

fun processElement ::
  "(node \<Rightarrow> nat \<Rightarrow> jsval) \<Rightarrow> (node \<Rightarrow> nat) \<Rightarrow> jsval \<Rightarrow> props \<Rightarrow> node list \<Rightarrow> pstate \<Rightarrow>
   node \<times> pstate"
  and processChildren ::
  "(node \<Rightarrow> nat \<Rightarrow> jsval) \<Rightarrow> (node \<Rightarrow> nat) \<Rightarrow> jsval \<Rightarrow> props \<Rightarrow> node list \<Rightarrow> node list \<Rightarrow>
   pstate \<Rightarrow> node list \<times> pstate" where
  "processElement getTextNodeID hash sessionRootTagID pr cs st =
     (let pr1 = pr\<lparr>tagID := attr_get (attributes pr) ''data-cloud9-id'',
                   attributes := attr_delete ''data-cloud9-id'' (attributes pr)\<rparr>;
          (cs', st1) = processChildren getTextNodeID hash sessionRootTagID pr1 [] cs st;
          elem = node_update hash (Element pr1 cs');
          nm = (fst st1)(keyOf (tagID pr1) \<mapsto> oid pr1)
      in (elem, (nm, if tagID pr1 = sessionRootTagID then Some elem else snd st1)))"
| "processChildren getTextNodeID hash sessionRootTagID pr1 done [] st = (done, st)"
| "processChildren getTextNodeID hash sessionRootTagID pr1 done (Element cpr ccs # todo) st =
     (let (c', st') = processElement getTextNodeID hash sessionRootTagID
                        (cpr\<lparr>parent := Some (oid pr1)\<rparr>) ccs st
      in processChildren getTextNodeID hash sessionRootTagID pr1 (done @ [c']) todo st')"
| "processChildren getTextNodeID hash sessionRootTagID pr1 done (Text cpr # todo) st =
     (let c1 = node_update hash (Text (cpr\<lparr>parent := Some (oid pr1)\<rparr>));
          tid = getTextNodeID (Element pr1 (done @ c1 # todo)) (length done);
          c2 = Text ((props c1)\<lparr>tagID := tid\<rparr>)
      in processChildren getTextNodeID hash sessionRootTagID pr1 (done @ [c2]) todo
           ((fst st)(keyOf tid \<mapsto> oid cpr), snd st))"

text \<open>
  \<open>_processBrowserSimpleDOM\<close> returns the chosen root with the \<open>nodeMap\<close>; the model also
  returns the browser's root after the processing. A root that is a text node has no
  \<open>attributes\<close> to read.
\<close>

definition processBrowserSimpleDOM ::
  "(node \<Rightarrow> nat \<Rightarrow> jsval) \<Rightarrow> (node \<Rightarrow> nat) \<Rightarrow> node \<Rightarrow> jsval \<Rightarrow> error + (node \<times> simpleDOM)" where
  "processBrowserSimpleDOM getTextNodeID hash browserRoot sessionRootTagID =
     (case browserRoot of
        Text pr \<Rightarrow> Inl TypeError
      | Element pr cs \<Rightarrow>
          (let (browserRoot', st) =
                 processElement getTextNodeID hash sessionRootTagID pr cs (Map.empty, None);
               chosen = (case snd st of Some r \<Rightarrow> r | None \<Rightarrow> browserRoot')
           in Inr (browserRoot', \<lparr>root = chosen, nodeMap = fst st, errors = None\<rparr>)))"

record 'e browser_diff =
  diff :: 'e
  browser :: simpleDOM
  bsession :: simpleDOM

definition getBrowserDiff ::
  "(simpleDOM option \<Rightarrow> simpleDOM \<Rightarrow> 'e) \<Rightarrow> (node \<Rightarrow> nat \<Rightarrow> jsval) \<Rightarrow> (node \<Rightarrow> nat) \<Rightarrow>
   session \<Rightarrow> node \<Rightarrow> error + 'e browser_diff" where
  "getBrowserDiff domdiff getTextNodeID hash s browserSimpleDOM =
     (case sdom s of
        None \<Rightarrow> Inl TypeError
      | Some sessionRoot \<Rightarrow>
          (case processBrowserSimpleDOM getTextNodeID hash browserSimpleDOM
                  (tagID (props (root sessionRoot))) of
             Inl e \<Rightarrow> Inl e
           | Inr (b, browserRoot) \<Rightarrow>
               Inr \<lparr>diff = domdiff (Some sessionRoot) browserRoot, browser = browserRoot,
                    bsession = sessionRoot\<rparr>))"

text \<open>
  What the reconciler is to establish. \<open>elems\<close> are the elements of a tree in document order.
  \<open>observed\<close> lists, for the elements of the tree as the browser sends it, the value of the
  reserved attribute and the attributes without it; \<open>adapted\<close> lists the identifiers and the
  attributes of the elements of a tree. \<open>text_id_from_position\<close> says of an element that
  the identifier of each of its text children is \<open>getTextNodeID\<close> of the position: of the
  index of the child and of a parent \<open>p\<close> that is the element itself but for the signature
  (which \<open>update\<close> computes afterwards) with the same children before the index.
\<close>

fun elems :: "node \<Rightarrow> node list" where
  "elems (Element pr cs) = Element pr cs # concat (map elems cs)"
| "elems (Text pr) = []"

definition observed :: "node \<Rightarrow> (jsval \<times> (string \<times> jsval) list) list" where
  "observed t = map (\<lambda>e. (attr_get (attributes (props e)) ''data-cloud9-id'',
                           attr_delete ''data-cloud9-id'' (attributes (props e)))) (elems t)"

definition adapted :: "node \<Rightarrow> (jsval \<times> (string \<times> jsval) list) list" where
  "adapted t = map (\<lambda>e. (tagID (props e), attributes (props e))) (elems t)"

definition text_id_from_position :: "(node \<Rightarrow> nat \<Rightarrow> jsval) \<Rightarrow> node \<Rightarrow> bool" where
  "text_id_from_position getTextNodeID e \<longleftrightarrow>
     (\<forall>i<length (kids e). \<not> isElement (kids e ! i) \<longrightarrow>
        (\<exists>p. tagID (props (kids e ! i)) = getTextNodeID p i
           \<and> props e = (props p)\<lparr>signature := signature (props e)\<rparr>
           \<and> take i (kids p) = take i (kids e)))"

section \<open>The node map of a tree\<close>

text \<open>
  The entries a tree gives rise to in a node map: for every node its key and the node
  itself (its identity), parents before children. \<open>keys\<close> are the keys and \<open>oids\<close> the
  identities of the nodes of the tree.
\<close>

fun entries :: "node \<Rightarrow> (string \<times> nat) list" where
  "entries (Element pr cs) = (keyOf (tagID pr), oid pr) # concat (map entries cs)"
| "entries (Text pr) = [(keyOf (tagID pr), oid pr)]"

definition keys :: "node \<Rightarrow> string list" where
  "keys t = map fst (entries t)"

definition oids :: "node \<Rightarrow> nat list" where
  "oids t = map snd (entries t)"

text \<open>
  The invariant of a tree snapshot: the node map has exactly the entries of the tree, so
  its keys are the \<open>tagID\<close>s reachable from the root and each is mapped to its node.
\<close>

definition exact_map :: "nodemap \<Rightarrow> node \<Rightarrow> bool" where
  "exact_map m t \<longleftrightarrow> (\<forall>k ob. m k = Some ob \<longleftrightarrow> (k, ob) \<in> set (entries t))"

text \<open>A tree with the signatures blanked out.\<close>

fun unsig :: "node \<Rightarrow> node" where
  "unsig (Element pr cs) = Element (pr\<lparr>signature := 0\<rparr>) (map unsig cs)"
| "unsig (Text pr) = Text (pr\<lparr>signature := 0\<rparr>)"

section \<open>Example trees and deltas\<close>

definition mk_props :: "nat \<Rightarrow> jsval \<Rightarrow> string \<Rightarrow> pos \<Rightarrow> pos \<Rightarrow> nat option \<Rightarrow> props" where
  "mk_props i t nm sp ep par =
     \<lparr>oid = i, tagID = t, tag = nm, attributes = [], content = [],
      startPos = sp, endPos = ep, parent = par, signature = 0\<rparr>"

definition mk_text :: "nat \<Rightarrow> jsval \<Rightarrow> string \<Rightarrow> nat option \<Rightarrow> node" where
  "mk_text i t s par =
     Text \<lparr>oid = i, tagID = t, tag = [], attributes = [], content = s,
           startPos = \<lparr>row = 0, column = 0\<rparr>, endPos = \<lparr>row = 0, column = 0\<rparr>,
           parent = par, signature = 0\<rparr>"

text \<open>
  The tree of \<^verbatim>\<open><div><p>hi</p></div>\<close> on row 0: the \<open>div\<close> spans columns 0 to 20, the
  \<open>p\<close> columns 5 to 14.
\<close>

definition ex_p :: node where
  "ex_p = Element (mk_props 2 (Num 2) ''p'' \<lparr>row = 0, column = 5\<rparr> \<lparr>row = 0, column = 14\<rparr> (Some 1))
            [mk_text 3 (Str ''2.0'') ''hi'' (Some 2)]"

definition ex_div :: node where
  "ex_div = Element (mk_props 1 (Num 1) ''div'' \<lparr>row = 0, column = 0\<rparr> \<lparr>row = 0, column = 20\<rparr> None)
              [ex_p]"

definition ex_insert :: delta where
  "ex_insert = \<lparr>action = ''insertLines'',
                 drange = \<lparr>rstart = \<lparr>row = 0, column = 8\<rparr>, rend = \<lparr>row = 2, column = 3\<rparr>\<rparr>,
                 dtext = None, dlines = [''a'', ''b'', ''abc'']\<rparr>"

definition ex_remove :: delta where
  "ex_remove = \<lparr>action = ''removeText'',
                 drange = \<lparr>rstart = \<lparr>row = 0, column = 1\<rparr>, rend = \<lparr>row = 0, column = 4\<rparr>\<rparr>,
                 dtext = Some ''abc'', dlines = []\<rparr>"

text \<open>
  The cached tree of that document with its node map, the document, and a session on it.
\<close>

definition ex_dom :: simpleDOM where
  "ex_dom = \<lparr>root = ex_div, nodeMap = [''1'' \<mapsto> 1, ''2'' \<mapsto> 2, ''2.0'' \<mapsto> 3], errors = None\<rparr>"

text \<open>
  A session on a document of one row with the text \<open>txt\<close> and the cached tree \<open>d\<close>: the
  editor's functions for such a document.
\<close>

definition session_on :: "string \<Rightarrow> simpleDOM option \<Rightarrow> session" where
  "session_on txt d =
     \<lparr>sdom = d, getValue = txt,
      getTextRange = (\<lambda>a b. take (nat (column b - column a)) (drop (nat (column a)) txt)),
      positionToIndex = (\<lambda>p. column p)\<rparr>"

text \<open>Inserting \<open><br>\<close> after \<open>hi\<close>: a dangerous edit.\<close>

definition ex_dangerous :: delta where
  "ex_dangerous = \<lparr>action = ''insertText'',
     drange = \<lparr>rstart = \<lparr>row = 0, column = 10\<rparr>, rend = \<lparr>row = 0, column = 14\<rparr>\<rparr>,
     dtext = Some ''<br>'', dlines = []\<rparr>"

definition ex_session :: session where
  "ex_session = session_on ''<div><p>hi<br></p></div>'' (Some ex_dom)"

text \<open>
  Inserting \<open>!\<close> after \<open>hi\<close>: an edit inside the \<open>p\<close>, handled incrementally. A position
  offset and an identifier generator for the examples.
\<close>

definition ex_offsetPos :: "pos \<Rightarrow> int \<Rightarrow> pos" where
  "ex_offsetPos p k = p\<lparr>column := column p + k\<rparr>"

definition ex_getNewID :: "nat \<Rightarrow> jsval \<times> nat" where
  "ex_getNewID g = (Num (int g), Suc g)"

definition ex_edit :: delta where
  "ex_edit = \<lparr>action = ''insertText'',
     drange = \<lparr>rstart = \<lparr>row = 0, column = 10\<rparr>, rend = \<lparr>row = 0, column = 11\<rparr>\<rparr>,
     dtext = Some ''!'', dlines = []\<rparr>"

definition ex_session2 :: session where
  "ex_session2 = session_on ''<div><p>hi!</p></div>'' (Some ex_dom)"

definition ex_updater :: updater where
  "ex_updater = DOMUpdater (Some ex_dom) ex_session2 (Some ex_edit)"

text \<open>
  Removing \<open>hi\<close>: the \<open>p\<close> is parsed again and loses its text node. \<open>ex_div6\<close> is the
  cached tree after the position tracker, \<open>ex_old_p\<close> its \<open>p\<close>, \<open>ex_new_p\<close> the tree a
  builder returns for \<^verbatim>\<open><p></p>\<close>, made of new objects. \<open>ex_hash\<close> stands for the fingerprint.
\<close>

definition ex_hash :: "node \<Rightarrow> nat" where
  "ex_hash n = length (nodes n)"

definition ex_remove_hi :: delta where
  "ex_remove_hi = \<lparr>action = ''removeText'',
     drange = \<lparr>rstart = \<lparr>row = 0, column = 8\<rparr>, rend = \<lparr>row = 0, column = 10\<rparr>\<rparr>,
     dtext = Some ''hi'', dlines = []\<rparr>"

definition ex_updater6 :: updater where
  "ex_updater6 = DOMUpdater (Some ex_dom) (session_on ''<div><p></p></div>'' (Some ex_dom))
                   (Some ex_remove_hi)"

definition ex_new_p :: simpleDOM where
  "ex_new_p = \<lparr>root = Element (mk_props 12 (Num 2) ''p'' \<lparr>row = 0, column = 5\<rparr>
                               \<lparr>row = 0, column = 12\<rparr> None) [],
               nodeMap = [''2'' \<mapsto> 12], errors = None\<rparr>"

definition ex_build6 :: builder where
  "ex_build6 u = Inr (Some ex_new_p, None)"

definition ex_div6 :: node where
  "ex_div6 =
     Element (mk_props 1 (Num 1) ''div'' \<lparr>row = 0, column = 0\<rparr> \<lparr>row = 0, column = 18\<rparr> None)
       [Element (mk_props 2 (Num 2) ''p'' \<lparr>row = 0, column = 5\<rparr> \<lparr>row = 0, column = 12\<rparr> (Some 1))
          [mk_text 3 (Str ''2.0'') ''hi'' (Some 2)]]"

definition ex_old_p :: node where
  "ex_old_p = Element (mk_props 2 (Num 2) ''p'' \<lparr>row = 0, column = 5\<rparr> \<lparr>row = 0, column = 12\<rparr> (Some 1))
          [mk_text 3 (Str ''2.0'') ''hi'' (Some 2)]"

text \<open>A differ for the examples: the keys of the old side and of the new side.\<close>

definition ex_domdiff :: "simpleDOM option \<Rightarrow> simpleDOM \<Rightarrow> string list option \<times> string list" where
  "ex_domdiff old new = (map_option (\<lambda>d. keys (root d)) old, keys (root new))"

text \<open>
  Inserting \<open>x\<close> into the closing tag of the \<open>p\<close>: the text cannot be parsed any more.
  \<open>ex_build_fail\<close> is a builder that cannot parse, \<open>ex_build_throw\<close> one that throws.
\<close>

definition ex_break :: delta where
  "ex_break = \<lparr>action = ''insertText'',
     drange = \<lparr>rstart = \<lparr>row = 0, column = 12\<rparr>, rend = \<lparr>row = 0, column = 13\<rparr>\<rparr>,
     dtext = Some ''x'', dlines = []\<rparr>"



text \<open>
  Inserting \<open>!\<close> between \<^verbatim>\<open></p>\<close> and \<^verbatim>\<open></div>\<close>: the enclosing node is the root.
  \<open>ex_div8\<close> is the cached tree after the position tracker, \<open>ex_new_div\<close> the tree a builder
  returns for the whole \<open>div\<close>, made of new objects.
\<close>

definition ex_append :: delta where
  "ex_append = \<lparr>action = ''insertText'',
     drange = \<lparr>rstart = \<lparr>row = 0, column = 14\<rparr>, rend = \<lparr>row = 0, column = 15\<rparr>\<rparr>,
     dtext = Some ''!'', dlines = []\<rparr>"

definition ex_updater8 :: updater where
  "ex_updater8 = DOMUpdater (Some ex_dom) (session_on ''<div><p>hi</p>!</div>'' (Some ex_dom))
                   (Some ex_append)"

definition ex_div8 :: node where
  "ex_div8 =
     Element (mk_props 1 (Num 1) ''div'' \<lparr>row = 0, column = 0\<rparr> \<lparr>row = 0, column = 21\<rparr> None)
       [Element (mk_props 2 (Num 2) ''p'' \<lparr>row = 0, column = 5\<rparr> \<lparr>row = 0, column = 14\<rparr> (Some 1))
          [mk_text 3 (Str ''2.0'') ''hi'' (Some 2)]]"

definition ex_new_div :: simpleDOM where
  "ex_new_div =
     \<lparr>root = Element (mk_props 11 (Num 1) ''div'' \<lparr>row = 0, column = 0\<rparr> \<lparr>row = 0, column = 21\<rparr> None)
        [Element (mk_props 12 (Num 2) ''p'' \<lparr>row = 0, column = 5\<rparr> \<lparr>row = 0, column = 14\<rparr> (Some 11))
           [mk_text 13 (Str ''2.0'') ''hi'' (Some 12)],
         mk_text 14 (Str ''2t'') ''!'' (Some 11)],
      nodeMap = [''1'' \<mapsto> 11, ''2'' \<mapsto> 12, ''2.0'' \<mapsto> 13, ''2t'' \<mapsto> 14],
      errors = None\<rparr>"

definition ex_build8 :: builder where
  "ex_build8 u = Inr (Some ex_new_div, None)"


text \<open>
  The tree a browser sends for the document of \<open>ex_div\<close>: it has put the \<open>div\<close> into an
  \<open>html\<close> and a \<open>body\<close> of its own, which have no \<open>data-cloud9-id\<close>. A text node gets the
  key of its parent, a dot and its index.
\<close>

definition ex_browser :: node where
  "ex_browser =
     Element (mk_props 10 Undefined ''html'' \<lparr>row = 0, column = 0\<rparr> \<lparr>row = 0, column = 0\<rparr> None)
       [Element (mk_props 11 Undefined ''body'' \<lparr>row = 0, column = 0\<rparr> \<lparr>row = 0, column = 0\<rparr> None)
          [Element ((mk_props 12 Undefined ''div'' \<lparr>row = 0, column = 0\<rparr> \<lparr>row = 0, column = 0\<rparr> None)
                      \<lparr>attributes := [(''data-cloud9-id'', Num 1), (''class'', Str ''a'')]\<rparr>)
             [Element ((mk_props 13 Undefined ''p'' \<lparr>row = 0, column = 0\<rparr> \<lparr>row = 0, column = 0\<rparr> None)
                         \<lparr>attributes := [(''data-cloud9-id'', Num 2)]\<rparr>)
                [mk_text 14 Undefined ''hi'' None]]]]"

definition ex_getTextNodeID :: "node \<Rightarrow> nat \<Rightarrow> jsval" where
  "ex_getTextNodeID p i = Str (keyOf (tagID (props p)) @ ''.'' @ show_nat i)"

text \<open>
  A document with two elements, \<^verbatim>\<open><div><p>hi</p><q>yo</q></div>\<close>, its cached tree, and
  what becomes of it. Inserting \<open>x\<close> into the closing tag of the \<open>p\<close> (\<open>ex_break\<close>) leaves a
  text that cannot be parsed; \<open>ex_retained\<close> is the tree the session keeps then. \<open>ex_parser\<close>
  is the builder on the texts that occur: it parses the span \<^verbatim>\<open><q>yo!</q>\<close>, the span
  \<^verbatim>\<open><p>hi</p>\<close> and the whole document once the closing tag is repaired, and nothing
  else; the trees it returns are made of new objects.
\<close>

definition ex_div2 :: node where
  "ex_div2 =
     Element (mk_props 1 (Num 1) ''div'' \<lparr>row = 0, column = 0\<rparr> \<lparr>row = 0, column = 29\<rparr> None)
       [Element (mk_props 2 (Num 2) ''p'' \<lparr>row = 0, column = 5\<rparr> \<lparr>row = 0, column = 14\<rparr> (Some 1))
          [mk_text 3 (Str ''2.0'') ''hi'' (Some 2)],
        Element (mk_props 4 (Num 3) ''q'' \<lparr>row = 0, column = 14\<rparr> \<lparr>row = 0, column = 23\<rparr> (Some 1))
          [mk_text 5 (Str ''3.0'') ''yo'' (Some 4)]]"

definition ex_map2 :: nodemap where
  "ex_map2 = [''1'' \<mapsto> 1, ''2'' \<mapsto> 2, ''2.0'' \<mapsto> 3, ''3'' \<mapsto> 4, ''3.0'' \<mapsto> 5]"

definition ex_dom2 :: simpleDOM where
  "ex_dom2 = \<lparr>root = ex_div2, nodeMap = ex_map2, errors = None\<rparr>"

definition ex_retained_root :: node where
  "ex_retained_root =
     Element (mk_props 1 (Num 1) ''div'' \<lparr>row = 0, column = 0\<rparr> \<lparr>row = 0, column = 30\<rparr> None)
       [Element (mk_props 2 (Num 2) ''p'' \<lparr>row = 0, column = 5\<rparr> \<lparr>row = 0, column = 15\<rparr> (Some 1))
          [mk_text 3 (Str ''2.0'') ''hi'' (Some 2)],
        Element (mk_props 4 (Num 3) ''q'' \<lparr>row = 0, column = 15\<rparr> \<lparr>row = 0, column = 24\<rparr> (Some 1))
          [mk_text 5 (Str ''3.0'') ''yo'' (Some 4)]]"

definition ex_retained :: simpleDOM where
  "ex_retained = \<lparr>root = ex_retained_root, nodeMap = ex_map2, errors = Some [''unbalanced'']\<rparr>"

definition ex_new_q :: simpleDOM where
  "ex_new_q =
     \<lparr>root = Element (mk_props 14 (Num 3) ''q'' \<lparr>row = 0, column = 15\<rparr> \<lparr>row = 0, column = 25\<rparr> None)
               [mk_text 15 (Str ''3.0'') ''yo!'' (Some 14)],
      nodeMap = [''3'' \<mapsto> 14, ''3.0'' \<mapsto> 15], errors = None\<rparr>"

definition ex_new_p3 :: simpleDOM where
  "ex_new_p3 =
     \<lparr>root = Element (mk_props 16 (Num 2) ''p'' \<lparr>row = 0, column = 5\<rparr> \<lparr>row = 0, column = 14\<rparr> None)
               [mk_text 17 (Str ''2.0'') ''hi'' (Some 16)],
      nodeMap = [''2'' \<mapsto> 16, ''2.0'' \<mapsto> 17], errors = None\<rparr>"

definition ex_full3 :: simpleDOM where
  "ex_full3 =
     \<lparr>root =
        Element (mk_props 21 (Num 1) ''div'' \<lparr>row = 0, column = 0\<rparr> \<lparr>row = 0, column = 36\<rparr> None)
          [Element (mk_props 22 (Num 2) ''p'' \<lparr>row = 0, column = 5\<rparr> \<lparr>row = 0, column = 14\<rparr> (Some 21))
             [mk_text 23 (Str ''2.0'') ''hi'' (Some 22)],
           Element (mk_props 24 (Num 3) ''q'' \<lparr>row = 0, column = 14\<rparr> \<lparr>row = 0, column = 30\<rparr> (Some 21))
             [mk_text 25 (Str ''3.0'') ''yo'' (Some 24),
              Element (mk_props 26 (Num 4) ''i'' \<lparr>row = 0, column = 19\<rparr> \<lparr>row = 0, column = 26\<rparr> (Some 24)) []]],
      nodeMap = [''1'' \<mapsto> 21, ''2'' \<mapsto> 22, ''2.0'' \<mapsto> 23, ''3'' \<mapsto> 24, ''3.0'' \<mapsto> 25,
                 ''4'' \<mapsto> 26],
      errors = None\<rparr>"

definition ex_parser :: builder where
  "ex_parser u =
     (if btext u = ''<q>yo!</q>'' then Inr (Some ex_new_q, None)
      else if btext u = ''<p>hi</p>'' then Inr (Some ex_new_p3, None)
      else if btext u = ''<div><p>hi</p><q>yo<i></i></q></div>'' then Inr (Some ex_full3, None)
      else Inr (None, Some [''unbalanced'']))"

text \<open>
  Inserting \<open>!\<close> after \<open>yo\<close> while the closing tag of the \<open>p\<close> is broken: the old \<open>q\<close> after
  the position tracker, the updater, and the tree after the splice.
\<close>

definition ex_bang :: delta where
  "ex_bang = \<lparr>action = ''insertText'',
     drange = \<lparr>rstart = \<lparr>row = 0, column = 20\<rparr>, rend = \<lparr>row = 0, column = 21\<rparr>\<rparr>,
     dtext = Some ''!'', dlines = []\<rparr>"

definition ex_old_q :: node where
  "ex_old_q = Element (mk_props 4 (Num 3) ''q'' \<lparr>row = 0, column = 15\<rparr> \<lparr>row = 0, column = 25\<rparr> (Some 1))
          [mk_text 5 (Str ''3.0'') ''yo'' (Some 4)]"

definition ex_updater_q :: updater where
  "ex_updater_q = DOMUpdater (Some ex_retained)
                    (session_on ''<div><p>hi</xp><q>yo!</q></div>'' (Some ex_retained)) (Some ex_bang)"

definition ex_spliced_root :: node where
  "ex_spliced_root =
     Element ((mk_props 1 (Num 1) ''div'' \<lparr>row = 0, column = 0\<rparr> \<lparr>row = 0, column = 31\<rparr> None)
                \<lparr>signature := 5\<rparr>)
       [Element (mk_props 2 (Num 2) ''p'' \<lparr>row = 0, column = 5\<rparr> \<lparr>row = 0, column = 15\<rparr> (Some 1))
          [mk_text 3 (Str ''2.0'') ''hi'' (Some 2)],
        Element (mk_props 14 (Num 3) ''q'' \<lparr>row = 0, column = 15\<rparr> \<lparr>row = 0, column = 25\<rparr> (Some 1))
          [mk_text 15 (Str ''3.0'') ''yo!'' (Some 14)]]"

definition ex_spliced :: simpleDOM where
  "ex_spliced = \<lparr>root = ex_spliced_root,
                  nodeMap = [''1'' \<mapsto> 1, ''2'' \<mapsto> 2, ''2.0'' \<mapsto> 3, ''3'' \<mapsto> 14, ''3.0'' \<mapsto> 15],
                  errors = Some [''unbalanced'']\<rparr>"

text \<open>
  Inserting \<^verbatim>\<open><i></i>\<close> after \<open>yo\<close> while the closing tag of the \<open>p\<close> is broken, and then
  repairing the closing tag: the tree the session keeps after the first edit, the old \<open>p\<close>
  after the position tracker, the updater of the second edit, and the tree after its splice.
\<close>

definition ex_add_i :: delta where
  "ex_add_i = \<lparr>action = ''insertText'',
     drange = \<lparr>rstart = \<lparr>row = 0, column = 20\<rparr>, rend = \<lparr>row = 0, column = 27\<rparr>\<rparr>,
     dtext = Some ''<i></i>'', dlines = []\<rparr>"

definition ex_unbreak :: delta where
  "ex_unbreak = \<lparr>action = ''removeText'',
     drange = \<lparr>rstart = \<lparr>row = 0, column = 12\<rparr>, rend = \<lparr>row = 0, column = 13\<rparr>\<rparr>,
     dtext = Some ''x'', dlines = []\<rparr>"

definition ex_retained_i_root :: node where
  "ex_retained_i_root =
     Element (mk_props 1 (Num 1) ''div'' \<lparr>row = 0, column = 0\<rparr> \<lparr>row = 0, column = 37\<rparr> None)
       [Element (mk_props 2 (Num 2) ''p'' \<lparr>row = 0, column = 5\<rparr> \<lparr>row = 0, column = 15\<rparr> (Some 1))
          [mk_text 3 (Str ''2.0'') ''hi'' (Some 2)],
        Element (mk_props 4 (Num 3) ''q'' \<lparr>row = 0, column = 15\<rparr> \<lparr>row = 0, column = 31\<rparr> (Some 1))
          [mk_text 5 (Str ''3.0'') ''yo'' (Some 4)]]"

definition ex_retained_i :: simpleDOM where
  "ex_retained_i = \<lparr>root = ex_retained_i_root, nodeMap = ex_map2, errors = Some [''unbalanced'']\<rparr>"

definition ex_old_p3 :: node where
  "ex_old_p3 = Element (mk_props 2 (Num 2) ''p'' \<lparr>row = 0, column = 5\<rparr> \<lparr>row = 0, column = 14\<rparr> (Some 1))
          [mk_text 3 (Str ''2.0'') ''hi'' (Some 2)]"

definition ex_updater_p :: updater where
  "ex_updater_p = DOMUpdater (Some ex_retained_i)
                    (session_on ''<div><p>hi</p><q>yo<i></i></q></div>'' (Some ex_retained_i))
                    (Some ex_unbreak)"

definition ex_caught_root :: node where
  "ex_caught_root =
     Element ((mk_props 1 (Num 1) ''div'' \<lparr>row = 0, column = 0\<rparr> \<lparr>row = 0, column = 36\<rparr> None)
                \<lparr>signature := 5\<rparr>)
       [Element (mk_props 16 (Num 2) ''p'' \<lparr>row = 0, column = 5\<rparr> \<lparr>row = 0, column = 14\<rparr> (Some 1))
          [mk_text 17 (Str ''2.0'') ''hi'' (Some 16)],
        Element (mk_props 4 (Num 3) ''q'' \<lparr>row = 0, column = 14\<rparr> \<lparr>row = 0, column = 30\<rparr> (Some 1))
          [mk_text 5 (Str ''3.0'') ''yo'' (Some 4)]]"

definition ex_caught :: simpleDOM where
  "ex_caught = \<lparr>root = ex_caught_root,
                 nodeMap = [''1'' \<mapsto> 1, ''2'' \<mapsto> 16, ''2.0'' \<mapsto> 17, ''3'' \<mapsto> 4, ''3.0'' \<mapsto> 5],
                 errors = Some [''unbalanced'']\<rparr>"

section \<open>The position tracker changes positions only\<close>

lemma walk_some_falsy:
  "(\<And>c. c \<in> set cs \<Longrightarrow> fst (walk d c) = False) \<Longrightarrow> fst (walk_some d cs) = False"
proof (induction cs)
  case (Cons c cs)
  have "fst (walk d c) = False" using Cons.prems by simp
  moreover have "fst (walk_some d cs) = False" using Cons by simp
  ultimately show ?case by (cases "walk d c"; cases "walk_some d cs") simp
qed simp

lemma walk_falsy: "fst (walk d n) = False"
proof (induction n)
  case (Element pr cs)
  then have "fst (walk_some d cs) = False" by (rule walk_some_falsy)
  then show ?case by (auto simp: Let_def split: prod.splits)
qed simp

lemma walk_some_map: "walk_some d cs = (False, map (\<lambda>c. snd (walk d c)) cs)"
proof (induction cs)
  case (Cons c cs)
  moreover have "fst (walk d c) = False" by (rule walk_falsy)
  ultimately show ?case by (auto simp: Let_def split: prod.splits)
qed simp

lemma walk_Element:
  "snd (walk d (Element pr cs)) =
     Element (fst (visit d pr)) (if snd (visit d pr) then map (\<lambda>c. snd (walk d c)) cs else cs)"
  by (simp add: walk_some_map visit_def Let_def)

lemma visit_erase:
  "(fst (visit d pr))\<lparr>startPos := a, endPos := b\<rparr> = pr\<lparr>startPos := a, endPos := b\<rparr>"
  by (simp add: visit_def Let_def)

lemma walk_erase: "erase (snd (walk d n)) = erase n"
proof (induction n)
  case (Element pr cs)
  then have "map (\<lambda>c. erase (snd (walk d c))) cs = map erase cs" by simp
  then show ?case by (simp add: walk_Element visit_erase del: walk.simps)
qed simp

lemma nodes_erase: "map erase (nodes n) = nodes (erase n)"
proof (induction n)
  case (Element pr cs)
  then have "map (\<lambda>c. map erase (nodes c)) cs = map (\<lambda>c. nodes (erase c)) cs" by simp
  then have "concat (map (\<lambda>c. map erase (nodes c)) cs) = concat (map (\<lambda>c. nodes (erase c)) cs)"
    by (rule arg_cong)
  then show ?case by (simp add: map_concat comp_def)
qed simp

lemma props_erase:
  "tagID (props (erase n)) = tagID (props n)"
  "oid (props (erase n)) = oid (props n)"
  "parent (props (erase n)) = parent (props n)"
  by (cases n; simp)+

text \<open>
  Claim C9. The position tracker changes nothing but the \<open>startPos\<close> and \<open>endPos\<close> of
  elements: with those blanked out, the tree after \<open>updatePositions\<close> is the tree before
  it, so tag names, attributes, text content, identifiers, parent references and the
  children arrays are the same; the tree has as many nodes as before, and they carry the same
  \<open>tagID\<close>s in the same order.
\<close>

theorem updatePositions_frame:
  "erase (updatePositions t d) = erase t
   \<and> length (nodes (updatePositions t d)) = length (nodes t)
   \<and> map (\<lambda>n. tagID (props n)) (nodes (updatePositions t d))
       = map (\<lambda>n. tagID (props n)) (nodes t)"
proof -
  have e: "erase (updatePositions t d) = erase t"
    by (simp add: updatePositions_def walk_erase)
  have "map erase (nodes (updatePositions t d)) = map erase (nodes t)"
    by (simp add: nodes_erase e)
  then have "length (map erase (nodes (updatePositions t d))) = length (map erase (nodes t))"
    and "map (\<lambda>n. tagID (props n)) (map erase (nodes (updatePositions t d)))
         = map (\<lambda>n. tagID (props n)) (map erase (nodes t))"
    by simp_all
  then show ?thesis using e by (simp add: props_erase comp_def)
qed

section \<open>The shift of the boundaries\<close>

lemma bounds_walk_Element:
  "bounds (snd (walk d (Element pr cs))) =
     startPos (fst (visit d pr)) # endPos (fst (visit d pr)) #
       (if snd (visit d pr) then concat (map (\<lambda>c. bounds (snd (walk d c))) cs)
        else concat (map bounds cs))"
  by (simp add: walk_Element comp_def del: walk.simps)

lemma sign_cases: "sign d = 1 \<or> sign d = - 1"
  by (simp add: sign_def split: list.splits)

lemma update_pos_insert:
  "sign d = 1 \<Longrightarrow> update_pos d b =
     \<lparr>row = row b + (row (rend (drange d)) - row (rstart (drange d))),
      column = (if row b = row (rstart (drange d))
                then column b + (column (rend (drange d)) - column (rstart (drange d)))
                else column b)\<rparr>"
  by (simp add: update_pos_def rowChange_def columnChange_def Let_def)

lemma update_pos_delete:
  "sign d \<noteq> 1 \<Longrightarrow> update_pos d b = shift_delete (rstart (drange d)) (rend (drange d)) b"
  using sign_cases[of d]
  by (auto simp: update_pos_def rowChange_def columnChange_def Let_def shift_delete_def)

lemma concat_map_cong:
  "(\<And>c. c \<in> set cs \<Longrightarrow> f c = g c) \<Longrightarrow> concat (map f cs) = concat (map g cs)"
  by (induction cs) auto

lemma concat_map_map: "concat (map (\<lambda>c. map f (g c)) cs) = map f (concat (map g cs))"
  by (simp add: map_concat comp_def)

lemma list_all2_concat_map:
  "(\<And>c. c \<in> set cs \<Longrightarrow> list_all2 P (f c) (g c)) \<Longrightarrow>
   list_all2 P (concat (map f cs)) (concat (map g cs))"
  by (induction cs) (auto intro: list_all2_appendI)

lemma insert_walk:
  assumes "sign d = 1" "nested n"
  shows "bounds (snd (walk d n)) =
    map (shift_insert (rstart (drange d)) (row (rend (drange d)) - row (rstart (drange d)))
           (column (rend (drange d)) - column (rstart (drange d)))) (bounds n)"
  using assms(2)
proof (induction n)
  case (Element pr cs)
  let ?S = "shift_insert (rstart (drange d)) (row (rend (drange d)) - row (rstart (drange d)))
           (column (rend (drange d)) - column (rstart (drange d)))"
  have le: "comparePoints (startPos pr) (endPos pr) \<le> 0" using Element.prems by simp
  have inner: "\<And>c b. c \<in> set cs \<Longrightarrow> b \<in> set (bounds c) \<Longrightarrow>
      comparePoints (startPos pr) b \<le> 0 \<and> comparePoints b (endPos pr) \<le> 0"
    using Element.prems by simp
  have IH: "\<And>c. c \<in> set cs \<Longrightarrow> bounds (snd (walk d c)) = map ?S (bounds c)"
    using Element by simp
  have desc: "concat (map (\<lambda>c. bounds (snd (walk d c))) cs) = map ?S (concat (map bounds cs))"
  proof -
    have "concat (map (\<lambda>c. bounds (snd (walk d c))) cs) = concat (map (\<lambda>c. map ?S (bounds c)) cs)"
      using IH by (rule concat_map_cong)
    then show ?thesis by (rule trans) (rule concat_map_map)
  qed
  have hd: "startPos (fst (visit d pr)) = ?S (startPos pr)"
           "endPos (fst (visit d pr)) = ?S (endPos pr)"
    using le assms(1)
    by (auto simp: visit_def Let_def shift_insert_def update_pos_insert comparePoints_def
             split: if_splits)
  have skip: "\<not> snd (visit d pr) \<Longrightarrow> concat (map bounds cs) = map ?S (concat (map bounds cs))"
  proof -
    assume ns: "\<not> snd (visit d pr)"
    have "\<And>c b. c \<in> set cs \<Longrightarrow> b \<in> set (bounds c) \<Longrightarrow> ?S b = b"
    proof -
      fix c b assume "c \<in> set cs" "b \<in> set (bounds c)"
      then have "comparePoints (startPos pr) b \<le> 0 \<and> comparePoints b (endPos pr) \<le> 0"
        by (rule inner)
      with ns assms(1) show "?S b = b"
        by (auto simp: visit_def Let_def shift_insert_def update_pos_insert comparePoints_def
                 rowChange_def split: if_splits)
    qed
    then have "\<And>c. c \<in> set cs \<Longrightarrow> bounds c = map ?S (bounds c)"
      by (simp add: map_idI)
    then have "concat (map bounds cs) = concat (map (\<lambda>c. map ?S (bounds c)) cs)"
      by (rule concat_map_cong)
    then show ?thesis by (rule trans) (rule concat_map_map)
  qed
  show ?case
    using hd desc skip by (simp add: bounds_walk_Element del: walk.simps)
qed simp

lemma delete_walk:
  assumes "sign d \<noteq> 1" "comparePoints (rstart (drange d)) (rend (drange d)) \<le> 0" "nested n"
  shows "list_all2 (deleted_ok (rstart (drange d)) (rend (drange d)))
           (bounds n) (bounds (snd (walk d n)))"
  using assms(3)
proof (induction n)
  case (Element pr cs)
  let ?S = "rstart (drange d)" and ?E = "rend (drange d)"
  let ?P = "deleted_ok ?S ?E"
  have sg: "sign d = - 1" using assms(1) sign_cases[of d] by simp
  have le: "comparePoints (startPos pr) (endPos pr) \<le> 0" using Element.prems by simp
  have inner: "\<And>c b. c \<in> set cs \<Longrightarrow> b \<in> set (bounds c) \<Longrightarrow>
      comparePoints (startPos pr) b \<le> 0 \<and> comparePoints b (endPos pr) \<le> 0"
    using Element.prems by simp
  have IH: "\<And>c. c \<in> set cs \<Longrightarrow> list_all2 ?P (bounds c) (bounds (snd (walk d c)))"
    using Element by simp
  have desc: "list_all2 ?P (concat (map bounds cs)) (concat (map (\<lambda>c. bounds (snd (walk d c))) cs))"
    using IH by (rule list_all2_concat_map)
  have hd: "?P (startPos pr) (startPos (fst (visit d pr)))"
           "?P (endPos pr) (endPos (fst (visit d pr)))"
    using le assms(1,2)
    by (auto simp: visit_def Let_def deleted_ok_def update_pos_delete comparePoints_def
             split: if_splits)
  have skip: "\<not> snd (visit d pr) \<Longrightarrow>
      list_all2 ?P (concat (map bounds cs)) (concat (map bounds cs))"
  proof -
    assume ns: "\<not> snd (visit d pr)"
    have "\<And>c b. c \<in> set cs \<Longrightarrow> b \<in> set (bounds c) \<Longrightarrow> ?P b b"
    proof -
      fix c b assume "c \<in> set cs" "b \<in> set (bounds c)"
      then have "comparePoints (startPos pr) b \<le> 0 \<and> comparePoints b (endPos pr) \<le> 0"
        by (rule inner)
      with ns sg assms(1,2) show "?P b b"
        by (auto simp: visit_def Let_def deleted_ok_def shift_delete_def update_pos_delete
                 comparePoints_def rowChange_def split: if_splits)
    qed
    then have "\<And>c. c \<in> set cs \<Longrightarrow> list_all2 ?P (bounds c) (bounds c)"
      by (simp add: list_all2_same)
    then show ?thesis by (rule list_all2_concat_map)
  qed
  show ?case
    using hd desc skip by (simp add: bounds_walk_Element del: walk.simps)
qed simp

lemma sign_single_line: "sign (single_line_insert r c s) = 1"
  by (simp add: sign_def single_line_insert_def)

lemma shift_single_line:
  "shift_insert \<lparr>row = r, column = c\<rparr> 0 k b =
     (if row b = r \<and> c < column b then b\<lparr>column := column b + k\<rparr> else b)"
  by (auto simp: shift_insert_def comparePoints_def)

text \<open>
  Claim C1, as amended. On a tree whose spans are nested, the position tracker does this
  to the boundaries of the elements. For an insertion at \<open>P\<close> whose range ends \<open>R\<close> rows
  and \<open>C\<close> columns after \<open>P\<close>: every boundary strictly after \<open>P\<close> moves down by \<open>R\<close> rows,
  and right by \<open>C\<close> columns when it is on the row of \<open>P\<close>; every boundary at or before \<open>P\<close>
  stays. For a deletion of a range from \<open>S\<close> to \<open>E\<close>: every boundary at or after \<open>E\<close> gets
  the inverse shift, anchored at \<open>E\<close>, and every boundary before \<open>S\<close> stays. In particular,
  for the insertion of a string \<open>s\<close> without line breaks at row \<open>r\<close>, column \<open>c\<close>, every
  boundary on row \<open>r\<close> with a column greater than \<open>c\<close> moves right by \<open>length s\<close>, and no
  other boundary changes.
\<close>

theorem position_shift:
  assumes "nested t"
  shows "(sign d = 1 \<longrightarrow>
            bounds (updatePositions t d) =
              map (shift_insert (rstart (drange d))
                     (row (rend (drange d)) - row (rstart (drange d)))
                     (column (rend (drange d)) - column (rstart (drange d)))) (bounds t))
       \<and> (sign d \<noteq> 1 \<and> comparePoints (rstart (drange d)) (rend (drange d)) \<le> 0 \<longrightarrow>
            list_all2 (deleted_ok (rstart (drange d)) (rend (drange d)))
              (bounds t) (bounds (updatePositions t d)))
       \<and> bounds (updatePositions t (single_line_insert r c s)) =
            map (\<lambda>b. if row b = r \<and> c < column b
                      then b\<lparr>column := column b + int (length s)\<rparr> else b) (bounds t)"
proof (intro conjI impI)
  assume "sign d = 1"
  then show "bounds (updatePositions t d) =
              map (shift_insert (rstart (drange d))
                     (row (rend (drange d)) - row (rstart (drange d)))
                     (column (rend (drange d)) - column (rstart (drange d)))) (bounds t)"
    using assms by (simp add: updatePositions_def insert_walk)
next
  assume "sign d \<noteq> 1 \<and> comparePoints (rstart (drange d)) (rend (drange d)) \<le> 0"
  then show "list_all2 (deleted_ok (rstart (drange d)) (rend (drange d)))
              (bounds t) (bounds (updatePositions t d))"
    using assms by (simp add: updatePositions_def delete_walk)
next
  have "bounds (updatePositions t (single_line_insert r c s)) =
          map (shift_insert \<lparr>row = r, column = c\<rparr> 0 (int (length s))) (bounds t)"
    using insert_walk[OF sign_single_line assms, of r c s]
    by (simp add: updatePositions_def single_line_insert_def)
  then show "bounds (updatePositions t (single_line_insert r c s)) =
            map (\<lambda>b. if row b = r \<and> c < column b
                      then b\<lparr>column := column b + int (length s)\<rparr> else b) (bounds t)"
    by (simp add: shift_single_line)
qed

lemma nested_ex_div: "nested ex_div"
  by (simp add: ex_div_def ex_p_def mk_props_def mk_text_def comparePoints_def)

lemma bounds_ex_div:
  "bounds ex_div = [\<lparr>row = 0, column = 0\<rparr>, \<lparr>row = 0, column = 20\<rparr>,
                    \<lparr>row = 0, column = 5\<rparr>, \<lparr>row = 0, column = 14\<rparr>]"
  by (simp add: ex_div_def ex_p_def mk_props_def mk_text_def)

theorem position_shift_witness:
  "nested ex_div
   \<and> sign ex_insert = 1
   \<and> bounds (updatePositions ex_div ex_insert) =
       [\<lparr>row = 0, column = 0\<rparr>, \<lparr>row = 2, column = 15\<rparr>,
        \<lparr>row = 0, column = 5\<rparr>, \<lparr>row = 2, column = 9\<rparr>]
   \<and> sign ex_remove \<noteq> 1
   \<and> comparePoints (rstart (drange ex_remove)) (rend (drange ex_remove)) \<le> 0
   \<and> list_all2 (deleted_ok \<lparr>row = 0, column = 1\<rparr> \<lparr>row = 0, column = 4\<rparr>)
        (bounds ex_div) (bounds (updatePositions ex_div ex_remove))
   \<and> bounds (updatePositions ex_div (single_line_insert 0 5 ''ab'')) =
       [\<lparr>row = 0, column = 0\<rparr>, \<lparr>row = 0, column = 22\<rparr>,
        \<lparr>row = 0, column = 5\<rparr>, \<lparr>row = 0, column = 16\<rparr>]"
proof -
  have i: "sign ex_insert = 1" and r: "sign ex_remove \<noteq> 1"
    and o: "comparePoints (rstart (drange ex_remove)) (rend (drange ex_remove)) \<le> 0"
    by (simp_all add: sign_def ex_insert_def ex_remove_def comparePoints_def)
  show ?thesis
    using position_shift[OF nested_ex_div, of ex_insert 0 5 "''ab''"]
      position_shift[OF nested_ex_div, of ex_remove 0 5 "''ab''"] i r o nested_ex_div
    by (simp add: bounds_ex_div shift_insert_def comparePoints_def ex_insert_def ex_remove_def)
qed

text \<open>
  The claim as the specification states it fails for a boundary exactly at the insertion
  point: inserting \<open>x\<close> at row 0, column 0 leaves the start of an element that begins at
  row 0, column 0 where it was, although its column is at or after the column of the
  insertion.
\<close>

theorem position_shift_counterexample:
  "row (startPos (props ex_div)) = 0
   \<and> 0 \<le> column (startPos (props ex_div))
   \<and> column (startPos (props (updatePositions ex_div (single_line_insert 0 0 ''x''))))
       \<noteq> column (startPos (props ex_div)) + int (length ''x'')"
  by (simp add: updatePositions_def ex_div_def ex_p_def mk_props_def mk_text_def
        single_line_insert_def sign_def comparePoints_def update_pos_def rowChange_def
        columnChange_def Let_def)


section \<open>The edit classifier\<close>

lemma isDangerousEdit_iff:
  "isDangerousEdit t \<longleftrightarrow> (\<exists>c \<in> set t. c \<in> set dangerous_chars)"
  by (induction t) auto

lemma getValue_mutate_alias: "getValue (mutate_alias a b s) = getValue s"
  by (simp add: mutate_alias_def split: option.splits)

text \<open>
  Claim C2. The classifier marks a text dangerous exactly when it contains one of the six
  characters \<open><\<close>, \<open>>\<close>, \<open>/\<close>, \<open>=\<close>, the double quote and the single quote. When the text of
  a delta is dangerous, the updater made for it is not incremental: no changed tag is
  chosen and the text to parse is the whole document. \<open>&amp;\<close> and \<open>&\<close> are not dangerous.
\<close>

theorem dangerous_edit_classification:
  "(isDangerousEdit t \<longleftrightarrow>
      (\<exists>c \<in> set t. c = CHR ''<'' \<or> c = CHR ''>'' \<or> c = CHR ''/'' \<or> c = CHR ''=''
                     \<or> c = CHR 0x22 \<or> c = CHR 0x27))
   \<and> (isDangerousEdit (delta_text d) \<longrightarrow>
        \<not> isIncremental (DOMUpdater prev s (Some d))
        \<and> changedTagID (DOMUpdater prev s (Some d)) = Undefined
        \<and> btext (DOMUpdater prev s (Some d)) = getValue s)
   \<and> \<not> isDangerousEdit ''&amp;'' \<and> \<not> isDangerousEdit ''&''"
proof (intro conjI impI)
  show "isDangerousEdit t \<longleftrightarrow>
      (\<exists>c \<in> set t. c = CHR ''<'' \<or> c = CHR ''>'' \<or> c = CHR ''/'' \<or> c = CHR ''=''
                     \<or> c = CHR 0x22 \<or> c = CHR 0x27)"
    by (simp add: isDangerousEdit_iff dangerous_chars_def)
next
  assume dg: "isDangerousEdit (delta_text d)"
  then show "\<not> isIncremental (DOMUpdater prev s (Some d))"
    by (simp add: DOMUpdater_def Let_def split: option.splits)
  from dg show "changedTagID (DOMUpdater prev s (Some d)) = Undefined"
    by (simp add: DOMUpdater_def Let_def split: option.splits)
  from dg show "btext (DOMUpdater prev s (Some d)) = getValue s"
    by (simp add: DOMUpdater_def Let_def getValue_mutate_alias split: option.splits)
next
  show "\<not> isDangerousEdit ''&amp;''" by (simp add: dangerous_chars_def)
  show "\<not> isDangerousEdit ''&''" by (simp add: dangerous_chars_def)
qed

theorem dangerous_edit_classification_witness:
  "isDangerousEdit ''<br>''
   \<and> isDangerousEdit (delta_text ex_dangerous)
   \<and> \<not> isIncremental (DOMUpdater (Some ex_dom) ex_session (Some ex_dangerous))
   \<and> changedTagID (DOMUpdater (Some ex_dom) ex_session (Some ex_dangerous)) = Undefined
   \<and> btext (DOMUpdater (Some ex_dom) ex_session (Some ex_dangerous)) = ''<div><p>hi<br></p></div>''"
proof -
  have d: "isDangerousEdit (delta_text ex_dangerous)"
    by (simp add: delta_text_def ex_dangerous_def dangerous_chars_def)
  have b: "isDangerousEdit ''<br>''"
    using dangerous_edit_classification[of "''<br>''" ex_dangerous "Some ex_dom" ex_session]
    by simp
  show ?thesis
    using dangerous_edit_classification[of "''<br>''" ex_dangerous "Some ex_dom" ex_session] d b
    by (simp add: ex_session_def session_on_def)
qed

section \<open>The node at a position\<close>

lemma findNode_loop_self:
  "\<forall>ch \<in> set cs. isElement ch \<longrightarrow>
      \<not> (comparePoints p (startPos (props ch)) > 0 \<and> comparePoints p (endPos (props ch)) < 0)
   \<Longrightarrow> findNode_loop n cs p pp = n"
proof (induction cs)
  case (Cons c cs)
  then have "findNode_loop n cs p pp = n" by simp
  moreover have "isElement c \<longrightarrow>
      \<not> (comparePoints p (startPos (props c)) > 0 \<and> comparePoints p (endPos (props c)) < 0)"
    using Cons.prems by simp
  ultimately show ?case by (cases c) (auto simp: Let_def)
qed simp

lemma findNode_isElement:
  "isElement n \<Longrightarrow> isElement (findNode n p pp)"
  "isElement n \<Longrightarrow> isElement (findNode_loop n cs p pp)"
  by (induction n p pp and n cs p pp rule: findNode_findNode_loop.induct) (auto simp: Let_def)

lemma findNode_in_tree:
  "findNode n p pp \<in> set (nodes n)"
  "findNode_loop n cs p pp = n \<or> (\<exists>c \<in> set cs. findNode_loop n cs p pp \<in> set (nodes c))"
proof (induction n p pp and n cs p pp rule: findNode_findNode_loop.induct)
  case (1 n p preferParent)
  then show ?case by (cases n) auto
next
  case (4 n pr cs rest p preferParent)
  then show ?case by (auto simp: Let_def)
qed auto

text \<open>
  Claim C10. Without a cached tree \<open>_getTagIDAtDocumentPos\<close> returns \<open>-1\<close>. \<open>findNode\<close>
  descends only into children that have a \<open>children\<close> array: called on an element it
  returns an element, and the node it returns is a node of the tree it was called on. A
  position that is not strictly inside the span of any element child resolves to the node
  itself.
\<close>

theorem findNode_element:
  "(sdom s = None \<longrightarrow> getTagIDAtDocumentPos s p = Num (- 1))
   \<and> (isElement n \<longrightarrow> isElement (findNode n p pp))
   \<and> findNode n p pp \<in> set (nodes n)
   \<and> ((\<forall>ch \<in> set (kids n). isElement ch \<longrightarrow>
          \<not> (comparePoints p (startPos (props ch)) > 0 \<and> comparePoints p (endPos (props ch)) < 0))
        \<longrightarrow> findNode n p pp = n)"
proof (intro conjI impI)
  assume "sdom s = None"
  then show "getTagIDAtDocumentPos s p = Num (- 1)"
    by (simp add: getTagIDAtDocumentPos_def getNodeAtDocumentPos_def)
next
  assume "isElement n"
  then show "isElement (findNode n p pp)" by (rule findNode_isElement)
next
  show "findNode n p pp \<in> set (nodes n)" by (rule findNode_in_tree)
next
  assume "\<forall>ch \<in> set (kids n). isElement ch \<longrightarrow>
          \<not> (comparePoints p (startPos (props ch)) > 0 \<and> comparePoints p (endPos (props ch)) < 0)"
  then have "findNode_loop n (kids n) p pp = n" by (rule findNode_loop_self)
  then show "findNode n p pp = n" by simp
qed

theorem findNode_element_witness:
  "sdom (session_on [] None) = None
   \<and> getTagIDAtDocumentPos (session_on [] None) \<lparr>row = 0, column = 5\<rparr> = Num (- 1)
   \<and> isElement ex_div
   \<and> isElement (findNode ex_div \<lparr>row = 0, column = 5\<rparr> True)
   \<and> findNode ex_div \<lparr>row = 0, column = 5\<rparr> True = ex_div"
proof -
  have e: "isElement ex_div" by (simp add: ex_div_def)
  have o: "\<forall>ch \<in> set (kids ex_div). isElement ch \<longrightarrow>
          \<not> (comparePoints \<lparr>row = 0, column = 5\<rparr> (startPos (props ch)) > 0
              \<and> comparePoints \<lparr>row = 0, column = 5\<rparr> (endPos (props ch)) < 0)"
    by (simp add: ex_div_def ex_p_def mk_props_def comparePoints_def)
  show ?thesis
    using findNode_element[of "session_on [] None" "\<lparr>row = 0, column = 5\<rparr>" ex_div True] e o
    by (simp add: session_on_def)
qed

section \<open>The identifier policy\<close>

text \<open>
  \<open>_hasAncestorWithID\<close> says whether some ancestor of the tag bears the identifier.
\<close>

lemma hasAncestorWithID_iff:
  "hasAncestorWithID ancestors i \<longleftrightarrow> (\<exists>a \<in> set ancestors. tagID a = i)"
  by (induction ancestors) auto

text \<open>
  Claim C3. With \<open>currentTagID\<close> the identifier found at the position just after the start
  of the new tag: \<open>getID\<close> returns a fresh identifier (the one \<open>getNewID\<close> mints) when the
  lookup gives \<open>-1\<close>, when some ancestor of the new tag bears that identifier, when the
  previous tree's node map has no node for it, and when the node it has bears another tag
  name; in the remaining case, where no ancestor bears the identifier, it returns the
  identifier found and mints nothing.
\<close>

theorem getID_policy:
  "(let currentTagID = getTagIDAtDocumentPos (usession u) (offsetPos (startPos newTag) 1) in
     (currentTagID = Num (- 1) \<longrightarrow>
        getID offsetPos getNewID u g newTag ancestors = Inr (getNewID g))
   \<and> ((\<exists>a \<in> set ancestors. tagID a = currentTagID) \<longrightarrow>
        getID offsetPos getNewID u g newTag ancestors = Inr (getNewID g))
   \<and> (previousDOM u = Some prev \<and> nodeMap prev (keyOf currentTagID) = None \<longrightarrow>
        getID offsetPos getNewID u g newTag ancestors = Inr (getNewID g))
   \<and> (previousDOM u = Some prev \<and> nodeMap prev (keyOf currentTagID) = Some ob
        \<and> find_obj ob (root prev) = Some oldNode \<and> tag (props oldNode) \<noteq> tag newTag \<longrightarrow>
        getID offsetPos getNewID u g newTag ancestors = Inr (getNewID g))
   \<and> (currentTagID \<noteq> Num (- 1) \<and> (\<forall>a \<in> set ancestors. tagID a \<noteq> currentTagID)
        \<and> previousDOM u = Some prev \<and> nodeMap prev (keyOf currentTagID) = Some ob
        \<and> find_obj ob (root prev) = Some oldNode \<and> tag (props oldNode) = tag newTag \<longrightarrow>
        getID offsetPos getNewID u g newTag ancestors = Inr (currentTagID, g)))"
  by (simp add: getID_def Let_def hasAncestorWithID_iff)

lemma updatePositions_ex_edit:
  "updatePositions ex_div ex_edit =
     Element (mk_props 1 (Num 1) ''div'' \<lparr>row = 0, column = 0\<rparr> \<lparr>row = 0, column = 21\<rparr> None)
       [Element (mk_props 2 (Num 2) ''p'' \<lparr>row = 0, column = 5\<rparr> \<lparr>row = 0, column = 15\<rparr> (Some 1))
          [mk_text 3 (Str ''2.0'') ''hi'' (Some 2)]]"
  by (simp add: updatePositions_def ex_div_def ex_p_def ex_edit_def mk_props_def mk_text_def
        sign_def comparePoints_def update_pos_def rowChange_def columnChange_def Let_def)

lemma ex_updater_eq:
  "previousDOM ex_updater = Some (ex_dom\<lparr>root := updatePositions ex_div ex_edit\<rparr>)"
  "sdom (usession ex_updater) = Some (ex_dom\<lparr>root := updatePositions ex_div ex_edit\<rparr>)"
  "isIncremental ex_updater" "changedTagID ex_updater = Num 2"
  "btext ex_updater = ''<p>hi!</p>''"
  "getValue (usession ex_updater) = ''<div><p>hi!</p></div>''"
  by (simp_all add: ex_updater_def DOMUpdater_def Let_def ex_session2_def session_on_def ex_dom_def
        mutate_alias_def same_object_def updatePositions_ex_edit delta_text_def
        getNodeAtDocumentPos_def dangerous_chars_def comparePoints_def mk_props_def mk_text_def,
      simp_all add: ex_edit_def dangerous_chars_def comparePoints_def)

text \<open>
  A tag outside every span gets a fresh identifier; a \<open>p\<close> found where the old \<open>p\<close> was,
  below a \<open>div\<close>, keeps the identifier 2, and a \<open>pre\<close> there gets a fresh one; a \<open>p\<close> inside
  the new \<open>p\<close>, which already bears 2, gets a fresh one.
\<close>

theorem getID_policy_witness:
  "getTagIDAtDocumentPos (session_on [] None) (ex_offsetPos \<lparr>row = 0, column = 0\<rparr> 1) = Num (- 1)
   \<and> getID ex_offsetPos ex_getNewID (DOMUpdater None (session_on [] None) None) (7::nat)
         (mk_props 9 Undefined ''div'' \<lparr>row = 0, column = 0\<rparr> \<lparr>row = 0, column = 0\<rparr> None) []
       = Inr (Num 7, 8)
   \<and> getTagIDAtDocumentPos (usession ex_updater) (ex_offsetPos \<lparr>row = 0, column = 5\<rparr> 1) = Num 2
   \<and> getID ex_offsetPos ex_getNewID ex_updater (7::nat)
         (mk_props 9 Undefined ''p'' \<lparr>row = 0, column = 5\<rparr> \<lparr>row = 0, column = 5\<rparr> (Some 8))
         [mk_props 8 (Num 1) ''div'' \<lparr>row = 0, column = 0\<rparr> \<lparr>row = 0, column = 0\<rparr> None]
       = Inr (Num 2, 7)
   \<and> getID ex_offsetPos ex_getNewID ex_updater (7::nat)
         (mk_props 9 Undefined ''pre'' \<lparr>row = 0, column = 5\<rparr> \<lparr>row = 0, column = 5\<rparr> (Some 8))
         [mk_props 8 (Num 1) ''div'' \<lparr>row = 0, column = 0\<rparr> \<lparr>row = 0, column = 0\<rparr> None]
       = Inr (Num 7, 8)
   \<and> getTagIDAtDocumentPos (usession ex_updater) (ex_offsetPos \<lparr>row = 0, column = 8\<rparr> 1) = Num 2
   \<and> getID ex_offsetPos ex_getNewID ex_updater (7::nat)
         (mk_props 9 Undefined ''p'' \<lparr>row = 0, column = 8\<rparr> \<lparr>row = 0, column = 8\<rparr> (Some 6))
         [mk_props 6 (Num 2) ''p'' \<lparr>row = 0, column = 5\<rparr> \<lparr>row = 0, column = 5\<rparr> (Some 8),
          mk_props 8 (Num 1) ''div'' \<lparr>row = 0, column = 0\<rparr> \<lparr>row = 0, column = 0\<rparr> None]
       = Inr (Num 7, 8)"
proof -
  let ?prev = "ex_dom\<lparr>root := updatePositions ex_div ex_edit\<rparr>"
  let ?div = "mk_props 8 (Num 1) ''div'' \<lparr>row = 0, column = 0\<rparr> \<lparr>row = 0, column = 0\<rparr> None"
  let ?oldp = "Element (mk_props 2 (Num 2) ''p'' \<lparr>row = 0, column = 5\<rparr>
             \<lparr>row = 0, column = 15\<rparr> (Some 1)) [mk_text 3 (Str ''2.0'') ''hi'' (Some 2)]"
  have a: "getTagIDAtDocumentPos (session_on [] None) (ex_offsetPos \<lparr>row = 0, column = 0\<rparr> 1) = Num (- 1)"
    by (simp add: getTagIDAtDocumentPos_def getNodeAtDocumentPos_def session_on_def)
  have b: "getTagIDAtDocumentPos (usession ex_updater) (ex_offsetPos \<lparr>row = 0, column = 5\<rparr> 1) = Num 2"
    by (simp add: getTagIDAtDocumentPos_def getNodeAtDocumentPos_def ex_updater_eq
          updatePositions_ex_edit ex_offsetPos_def comparePoints_def mk_props_def mk_text_def Let_def)
  have b': "getTagIDAtDocumentPos (usession ex_updater) (ex_offsetPos \<lparr>row = 0, column = 8\<rparr> 1) = Num 2"
    by (simp add: getTagIDAtDocumentPos_def getNodeAtDocumentPos_def ex_updater_eq
          updatePositions_ex_edit ex_offsetPos_def comparePoints_def mk_props_def mk_text_def Let_def)
  have c: "nodeMap ?prev (keyOf (Num 2)) = Some 2"
    by (simp add: ex_dom_def show_int_def show_nat.simps)
  have d: "find_obj 2 (root ?prev) = Some ?oldp"
    by (simp add: updatePositions_ex_edit mk_props_def mk_text_def)
  show ?thesis
    using getID_policy[of "DOMUpdater None (session_on [] None) None" ex_offsetPos
            "mk_props 9 Undefined ''div'' \<lparr>row = 0, column = 0\<rparr> \<lparr>row = 0, column = 0\<rparr> None"
            ex_getNewID 7 "[]"]
          getID_policy[of ex_updater ex_offsetPos
            "mk_props 9 Undefined ''p'' \<lparr>row = 0, column = 5\<rparr> \<lparr>row = 0, column = 5\<rparr> (Some 8)"
            ex_getNewID 7 "[?div]" ?prev 2 ?oldp]
          getID_policy[of ex_updater ex_offsetPos
            "mk_props 9 Undefined ''pre'' \<lparr>row = 0, column = 5\<rparr> \<lparr>row = 0, column = 5\<rparr> (Some 8)"
            ex_getNewID 7 "[?div]" ?prev 2 ?oldp]
          getID_policy[of ex_updater ex_offsetPos
            "mk_props 9 Undefined ''p'' \<lparr>row = 0, column = 8\<rparr> \<lparr>row = 0, column = 8\<rparr> (Some 6)"
            ex_getNewID 7
            "[mk_props 6 (Num 2) ''p'' \<lparr>row = 0, column = 5\<rparr> \<lparr>row = 0, column = 5\<rparr> (Some 8), ?div]"]
          a b b' c d ex_updater_eq(1)
    by (simp add: Let_def mk_props_def ex_getNewID_def DOMUpdater_def)
qed

section \<open>An update of a document that cannot be parsed\<close>

lemma previousDOM_DOMUpdater:
  "previousDOM (DOMUpdater (Some p) s (Some d)) = Some (p\<lparr>root := updatePositions (root p) d\<rparr>)"
  by (simp add: DOMUpdater_def Let_def split: option.splits)

lemma oid_walk: "oid (props (snd (walk d n))) = oid (props n)"
proof (cases n)
  case (Element pr cs)
  then show ?thesis by (simp add: walk_Element visit_def Let_def del: walk.simps)
qed simp

lemma same_object_shift: "same_object p (p\<lparr>root := updatePositions (root p) d\<rparr>)"
  by (simp add: same_object_def updatePositions_def oid_walk)

lemma same_object_refl: "same_object p p"
  by (simp add: same_object_def)

lemma usession_DOMUpdater:
  "sdom s = Some p \<Longrightarrow>
   usession (DOMUpdater (Some p) s (Some d)) = s\<lparr>sdom := Some (p\<lparr>root := updatePositions (root p) d\<rparr>)\<rparr>"
  by (simp add: DOMUpdater_def Let_def mutate_alias_def same_object_refl split: option.splits)

lemma uerrors_DOMUpdater: "uerrors (DOMUpdater p s d) = None"
  by (simp add: DOMUpdater_def Let_def split: option.splits prod.splits)

text \<open>
  When the builder cannot parse the text it is given after an edit (the whole text, or
  the span of the enclosing element), \<open>getUnappliedEditList\<close> returns the builder's error
  list and nothing else (no tree, no edit script); the session keeps the cached tree, the
  same nodes with the same identifiers and the same node map, with the positions shifted
  by the edit and the errors stored on it; and the shift is made by the constructor, so
  the builder already sees the shifted tree.
\<close>

lemma failed_parse_keeps_tree:
  assumes "sdom s = Some dom0"
    and "build (DOMUpdater (Some dom0) s (Some d)) = Inr (None, Some es)"
  shows "getUnappliedEditList hash build domdiff s (Some d) =
           Some (Inr \<lparr>r_errors = Some es, r_dom = None, r_edits = None, r_wasIncremental = None\<rparr>,
                 s\<lparr>sdom := Some (dom0\<lparr>root := updatePositions (root dom0) d, errors := Some es\<rparr>)\<rparr>)
       \<and> previousDOM (DOMUpdater (Some dom0) s (Some d)) =
           Some (dom0\<lparr>root := updatePositions (root dom0) d\<rparr>)
       \<and> erase (updatePositions (root dom0) d) = erase (root dom0)
       \<and> nodeMap (dom0\<lparr>root := updatePositions (root dom0) d, errors := Some es\<rparr>) = nodeMap dom0"
proof -
  let ?u = "DOMUpdater (Some dom0) s (Some d)"
  let ?p = "dom0\<lparr>root := updatePositions (root dom0) d\<rparr>"
  have up: "update hash build ?u = Some (Inr None, ?u\<lparr>uerrors := Some es\<rparr>)"
    using assms(2) by (simp add: update_def)
  have so: "same_object ?p (?p\<lparr>errors := Some es\<rparr>)" by (simp add: same_object_def)
  have "getUnappliedEditList hash build domdiff s (Some d) =
           Some (Inr \<lparr>r_errors = Some es, r_dom = None, r_edits = None, r_wasIncremental = None\<rparr>,
                 s\<lparr>sdom := Some (?p\<lparr>errors := Some es\<rparr>)\<rparr>)"
    using assms(1) up so
    by (simp add: getUnappliedEditList_def updateDOM_def Let_def previousDOM_DOMUpdater
          usession_DOMUpdater mutate_alias_def same_object_def)
  then show ?thesis
    by (simp add: previousDOM_DOMUpdater walk_erase updatePositions_def)
qed

section \<open>The splice\<close>

lemma entries_nodes: "entries t = map (\<lambda>n. (keyOf (tagID (props n)), oid (props n))) (nodes t)"
proof (induction t)
  case (Element pr cs)
  have "concat (map entries cs) =
     concat (map (\<lambda>c. map (\<lambda>n. (keyOf (tagID (props n)), oid (props n))) (nodes c)) cs)"
    by (rule concat_map_cong) (rule Element.IH)
  then show ?case by (simp only: entries.simps nodes.simps list.map props.simps concat_map_map node.sel)
qed simp

lemma oids_nodes: "oids t = map (\<lambda>n. oid (props n)) (nodes t)"
  by (simp add: oids_def entries_nodes comp_def)

lemma keys_nodes: "keys t = map (\<lambda>n. keyOf (tagID (props n))) (nodes t)"
  by (simp add: keys_def entries_nodes comp_def)

lemma oids_Element: "oids (Element pr cs) = oid pr # concat (map oids cs)"
proof -
  have "concat (map oids cs) = concat (map (\<lambda>c. map snd (entries c)) cs)"
    by (rule concat_map_cong) (simp add: oids_def)
  then show ?thesis by (simp add: oids_def map_concat comp_def)
qed

lemma oids_Text: "oids (Text pr) = [oid pr]"
  by (simp add: oids_def)

lemma find_obj_None_iff:
  "find_obj x t = None \<longleftrightarrow> x \<notin> set (oids t)"
  "find_objs x cs = None \<longleftrightarrow> (\<forall>c \<in> set cs. x \<notin> set (oids c))"
  by (induction x t and x cs rule: find_obj_find_objs.induct)
     (auto simp: oids_Element oids_Text split: option.splits)

lemma map_obj_absent: "x \<notin> set (oids t) \<Longrightarrow> map_obj x f t = t"
proof (induction t)
  case (Element pr cs)
  then have "map (map_obj x f) cs = cs" by (auto intro: map_idI simp: oids_Element)
  with Element show ?case by (simp add: oids_Element)
qed (simp add: oids_Text)

lemma find_obj_Some:
  "find_obj x t = Some n \<Longrightarrow> n \<in> set (nodes t) \<and> oid (props n) = x"
  "find_objs x cs = Some n \<Longrightarrow> (\<exists>c \<in> set cs. n \<in> set (nodes c)) \<and> oid (props n) = x"
  by (induction x t and x cs rule: find_obj_find_objs.induct)
     (auto split: option.splits if_splits)

lemma map_obj_entries_list:
  assumes IH: "\<And>c pn. c \<in> set cs \<Longrightarrow> distinct (oids c) \<Longrightarrow> find_obj p c = Some pn \<Longrightarrow>
      mset (entries (map_obj p f c)) + mset (entries pn) = mset (entries c) + mset (entries (f pn))"
    and "distinct (concat (map oids cs))" "find_objs p cs = Some pn"
  shows "mset (concat (map entries (map (map_obj p f) cs))) + mset (entries pn) =
         mset (concat (map entries cs)) + mset (entries (f pn))"
  using assms
proof (induction cs)
  case (Cons c cs)
  show ?case
  proof (cases "find_obj p c")
    case None
    then have "map_obj p f c = c" by (simp add: find_obj_None_iff map_obj_absent)
    moreover have "find_objs p cs = Some pn" using Cons.prems(3) None by simp
    moreover have "distinct (concat (map oids cs))" using Cons.prems(2) by simp
    ultimately show ?thesis using Cons.IH Cons.prems(1) by simp
  next
    case (Some a)
    then have a: "a = pn" using Cons.prems(3) by simp
    have "p \<in> set (oids c)" using Some find_obj_None_iff(1)[of p c] by auto
    then have "\<forall>c' \<in> set cs. p \<notin> set (oids c')" using Cons.prems(2) by auto
    then have "map (map_obj p f) cs = cs" by (auto intro: map_idI simp: map_obj_absent)
    moreover have "mset (entries (map_obj p f c)) + mset (entries pn) =
                   mset (entries c) + mset (entries (f pn))"
      using Cons.prems(1)[of c pn] Cons.prems(2) Some a by simp
    ultimately show ?thesis by (simp add: ac_simps)
  qed
qed simp

lemma map_obj_entries:
  "distinct (oids t) \<Longrightarrow> find_obj p t = Some pn \<Longrightarrow>
   mset (entries (map_obj p f t)) + mset (entries pn) = mset (entries t) + mset (entries (f pn))"
proof (induction t arbitrary: pn)
  case (Element pr cs)
  show ?case
  proof (cases "oid pr = p")
    case True
    then show ?thesis using Element.prems by (auto simp: ac_simps)
  next
    case False
    then have f: "find_objs p cs = Some pn" using Element.prems by simp
    have d: "distinct (concat (map oids cs))" using Element.prems by (simp add: oids_Element)
    have "mset (concat (map entries (map (map_obj p f) cs))) + mset (entries pn) =
         mset (concat (map entries cs)) + mset (entries (f pn))"
      by (rule map_obj_entries_list[OF _ d f]) (rule Element.IH)
    then show ?thesis using False by simp
  qed
next
  case (Text pr)
  then show ?case by (auto simp: ac_simps split: if_splits)
qed

lemma entries_list_update:
  "i < length cs \<Longrightarrow>
   mset (concat (map entries (cs[i := x]))) + mset (entries (cs ! i)) =
   mset (concat (map entries cs)) + mset (entries x)"
proof (induction cs arbitrary: i)
  case (Cons c cs)
  then show ?case by (cases i) (auto simp: ac_simps)
qed simp

lemma mset_subset_add_mset: "A \<subseteq># B \<Longrightarrow> A \<subseteq># add_mset x B"
  by (meson multi_psub_of_add_self subset_mset.le_less subset_mset.le_less_trans)

lemma entries_child: "c \<in> set cs \<Longrightarrow> mset (entries c) \<subseteq># mset (concat (map entries cs))"
proof (induction cs)
  case (Cons a cs)
  then show ?case
    by (auto simp: subset_mset.add_increasing subset_mset.add_increasing2)
qed simp

lemma entries_subtree:
  "n \<in> set (nodes t) \<Longrightarrow> mset (entries n) \<subseteq># mset (entries t)"
proof (induction t)
  case (Element pr cs)
  show ?case
  proof (cases "n = Element pr cs")
    case False
    then obtain c where c: "c \<in> set cs" "n \<in> set (nodes c)" using Element.prems by auto
    then have "mset (entries n) \<subseteq># mset (entries c)" using Element.IH by simp
    moreover have "mset (entries c) \<subseteq># mset (concat (map entries cs))"
      using c(1) by (rule entries_child)
    ultimately have "mset (entries n) \<subseteq># mset (concat (map entries cs))"
      by (rule subset_mset.order_trans)
    then show ?thesis by (simp add: mset_subset_add_mset)
  qed simp
qed simp

lemma count_balance:
  "(a::nat) + b = c + e \<Longrightarrow> b \<le> c \<Longrightarrow> c \<le> 1 \<Longrightarrow> (0 < a \<longleftrightarrow> (c = 1 \<and> b = 0) \<or> 0 < e)"
  by arith

lemma set_after_replace:
  assumes "distinct xs" "M + O' = mset xs + X" "O' \<subseteq># mset xs"
  shows "set_mset M = (set xs - set_mset O') \<union> set_mset X"
proof (rule set_eqI)
  fix k
  have "count (M + O') k = count (mset xs + X) k" using assms(2) by simp
  then have c: "count M k + count O' k = count (mset xs) k + count X k" by simp
  have le: "count O' k \<le> count (mset xs) k" using assms(3) by (simp add: mset_subset_eq_count)
  have d: "count (mset xs) k = (if k \<in> set xs then 1 else 0)"
    using assms(1) by (simp add: distinct_count_atmost_1)
  then have d1: "count (mset xs) k \<le> 1" by simp
  have "0 < count M k \<longleftrightarrow> (count (mset xs) k = 1 \<and> count O' k = 0) \<or> 0 < count X k"
    using c le d1 by (rule count_balance)
  then show "k \<in># M \<longleftrightarrow> k \<in> (set xs - set_mset O') \<union> set_mset X"
    using d by (auto simp: not_in_iff split: if_splits)
qed

lemma nodes_trans: "n \<in> set (nodes t) \<Longrightarrow> set (nodes n) \<subseteq> set (nodes t)"
proof (induction t)
  case (Element pr cs)
  then show ?case by (cases "n = Element pr cs") auto
qed simp

lemma same_oid_same_node:
  assumes "distinct (oids t)" "n \<in> set (nodes t)" "n' \<in> set (nodes t)"
    "oid (props n) = oid (props n')"
  shows "n = n'"
proof -
  have "inj_on (\<lambda>n. oid (props n)) (set (nodes t))"
    using assms(1) by (simp add: oids_nodes distinct_map)
  then show ?thesis using assms(2-4) by (auto dest: inj_onD)
qed

lemma indexOf_Some: "indexOf cs x = Some i \<Longrightarrow> i < length cs \<and> oid (props (cs ! i)) = x"
proof (induction cs arbitrary: i)
  case (Cons c cs)
  then show ?case by (cases i) (auto split: if_splits)
qed simp


lemma entries_set_parent: "entries (set_parent x n) = entries n"
  by (cases n) (simp_all add: set_parent_def)

lemma entries_node_update: "entries (node_update hash n) = entries n"
  by (cases n) (simp_all add: node_update_def)

lemma unsig_node_update: "unsig (node_update hash n) = unsig n"
  by (cases n) (simp_all add: node_update_def)

lemma unsig_map_obj_update: "unsig (map_obj p (node_update hash) t) = unsig t"
proof (induction t)
  case (Element pr cs)
  have "map (\<lambda>c. unsig (map_obj p (node_update hash) c)) cs = map unsig cs"
    using Element.IH by simp
  then show ?case
    using unsig_node_update[of hash "Element pr cs"] by (simp add: comp_def)
next
  case (Text pr)
  then show ?case using unsig_node_update[of hash "Text pr"] by simp
qed

lemma entries_unsig: "entries (unsig t) = entries t"
proof (induction t)
  case (Element pr cs)
  have "concat (map (\<lambda>c. entries (unsig c)) cs) = concat (map entries cs)"
    by (rule concat_map_cong) (rule Element.IH)
  then show ?case by (simp add: comp_def)
qed simp

lemma update_parents_unsig_aux:
  assumes "update_parents hash t cur = Some r"
  shows "\<forall>t2. r = Inr t2 \<longrightarrow> unsig t2 = unsig t"
proof (rule update_parents.raw_induct
         [where P = "\<lambda>h t c r. \<forall>t2. r = Inr t2 \<longrightarrow> unsig t2 = unsig t", OF _ assms])
  fix f :: "(node \<Rightarrow> nat) \<Rightarrow> node \<Rightarrow> nat option \<Rightarrow> (error + node) option"
    and h :: "node \<Rightarrow> nat" and tt :: node and c :: "nat option" and y :: "error + node"
  assume IH: "\<And>a1 a2 a3 y. f a1 a2 a3 = Some y \<Longrightarrow> \<forall>t2. y = Inr t2 \<longrightarrow> unsig t2 = unsig a2"
  assume eq: "(case c of None \<Rightarrow> Some (Inr tt)
      | Some p \<Rightarrow>
          (case find_obj p tt of None \<Rightarrow> Some (Inl Detached)
           | Some pn \<Rightarrow> f h (map_obj p (node_update h) tt) (parent (props pn)))) = Some y"
  show "\<forall>t2. y = Inr t2 \<longrightarrow> unsig t2 = unsig tt"
  proof (cases c)
    case None
    then show ?thesis using eq by auto
  next
    case (Some p)
    show ?thesis
    proof (cases "find_obj p tt")
      case None
      then show ?thesis using eq Some by auto
    next
      case (Some pn)
      then have "f h (map_obj p (node_update h) tt) (parent (props pn)) = Some y"
        using eq \<open>c = Some p\<close> by simp
      then have "\<forall>t2. y = Inr t2 \<longrightarrow> unsig t2 = unsig (map_obj p (node_update h) tt)"
        by (rule IH)
      then show ?thesis by (simp add: unsig_map_obj_update)
    qed
  qed
qed

lemma update_parents_unsig:
  "update_parents hash t cur = Some (Inr t2) \<Longrightarrow> unsig t2 = unsig t"
  using update_parents_unsig_aux by blast

lemma buildNodeMap_walk_dom:
  "dom (buildNodeMap_walk n m) =
     dom m \<union> {keyOf (tagID (props x)) | x. x \<in> set (nodes n) \<and> truthy (tagID (props x))}"
  "dom (buildNodeMap_each cs m) =
     dom m \<union> {keyOf (tagID (props x)) | x c. c \<in> set cs \<and> x \<in> set (nodes c) \<and> truthy (tagID (props x))}"
proof (induction n m and cs m rule: buildNodeMap_walk_buildNodeMap_each.induct)
  case (2 pr cs m)
  have "props (Element pr cs) = pr" by simp
  then show ?case using 2 by (auto split: if_splits) (metis node.sel(1))+
qed auto

lemma buildNodeMap_dom:
  "\<forall>x \<in> set (nodes n). truthy (tagID (props x)) \<Longrightarrow> dom (buildNodeMap n) = set (keys n)"
  by (auto simp: buildNodeMap_def buildNodeMap_walk_dom keys_nodes)

lemma nodes_set_parent_truthy:
  "(\<forall>x \<in> set (nodes (set_parent par n)). truthy (tagID (props x))) =
   (\<forall>x \<in> set (nodes n). truthy (tagID (props x)))"
  by (cases n) (simp_all add: set_parent_def)

lemma keys_set_parent: "keys (set_parent x n) = keys n"
  by (simp add: keys_def entries_set_parent)


lemma node_self: "n \<in> set (nodes n)"
  by (cases n) simp_all

lemma keys_set: "set (keys t) = fst ` set (entries t)"
  by (simp add: keys_def)

lemma fst_diff:
  assumes "distinct (map fst xs)" "set ys \<subseteq> set xs"
  shows "fst ` (set xs - set ys) = fst ` set xs - fst ` set ys"
proof
  show "fst ` (set xs - set ys) \<subseteq> fst ` set xs - fst ` set ys"
  proof
    fix k assume "k \<in> fst ` (set xs - set ys)"
    then obtain v where v: "(k, v) \<in> set xs" "(k, v) \<notin> set ys" by auto
    have "k \<notin> fst ` set ys"
    proof
      assume "k \<in> fst ` set ys"
      then obtain w where w: "(k, w) \<in> set ys" by auto
      then have "(k, w) \<in> set xs" using assms(2) by auto
      then have "v = w" using assms(1) v(1) by (rule_tac eq_key_imp_eq_value)
      then show False using v(2) w by simp
    qed
    then show "k \<in> fst ` set xs - fst ` set ys" using v(1) by force
  qed
next
  show "fst ` set xs - fst ` set ys \<subseteq> fst ` (set xs - set ys)" by force
qed

lemma exact_map_dom: "exact_map m t \<Longrightarrow> dom m = set (keys t)"
  by (force simp: exact_map_def keys_set dom_def)

lemma handleDeletions_apply:
  "handleDeletions (mixin a b) c b k =
     (if k \<in> dom c \<and> k \<notin> dom b then None
      else (case b k of Some v \<Rightarrow> Some v | None \<Rightarrow> a k))"
  by (auto simp: handleDeletions_def mixin_def map_add_def dom_def split: option.splits)

text \<open>
  Claim C6. Take an update that returns after the splice: the old subtree was found
  through the node map, it has a parent, and it is among the parent's children. Let the
  previous tree consist of distinct objects with distinct keys, let its node map and the
  new subtree's node map be exact, and let every node of the old subtree have a truthy
  \<open>tagID\<close>. Then the keys of the node map of the returned tree are exactly the keys
  reachable from its root; every entry of the new subtree is in the map (the key is mapped
  to the new node); every key of the old subtree that is not a key of the new one is gone
  from the map and from the tree; the entries of the tree are those of the previous tree
  without the old subtree's, with the new subtree's; and when no key of the new subtree is
  the key of a node kept from the previous tree, the node map is exact again.
\<close>

theorem nodeMap_after_splice:
  assumes ret: "update hash build u = Some (Inr (Some res), u')"
    and b: "build u = Inr (Some newSub, errs)"
    and c: "truthy (changedTagID u)" and pv: "previousDOM u = Some prev"
    and ob: "nodeMap prev (keyOf (changedTagID u)) = Some ob"
    and old: "find_obj ob (root prev) = Some old"
    and par: "parent (props old) = Some p"
    and pn: "find_obj p (root prev) = Some (Element ppr pcs)"
    and ix: "indexOf pcs ob = Some i"
    and d1: "distinct (oids (root prev))" and d2: "distinct (keys (root prev))"
    and e1: "exact_map (nodeMap prev) (root prev)"
    and e2: "exact_map (nodeMap newSub) (root newSub)"
    and tr: "\<forall>n \<in> set (nodes old). truthy (tagID (props n))"
  shows "dom (nodeMap (newDOM res)) = set (keys (root (newDOM res)))
       \<and> (\<forall>e \<in> set (entries (root (newSubtree res))). nodeMap (newDOM res) (fst e) = Some (snd e))
       \<and> (\<forall>k \<in> set (keys old) - set (keys (root newSub)).
            nodeMap (newDOM res) k = None \<and> k \<notin> set (keys (root (newDOM res))))
       \<and> set (entries (root (newDOM res))) =
            (set (entries (root prev)) - set (entries old)) \<union> set (entries (root newSub))
       \<and> (set (keys (root newSub)) \<inter> (set (keys (root prev)) - set (keys old)) = {} \<longrightarrow>
            exact_map (nodeMap (newDOM res)) (root (newDOM res)))"
proof -
  define new' where "new' = set_parent (Some p) (root newSub)"
  define old' where "old' = set_parent None old"
  define t1 where "t1 = map_obj p (set_child i new') (root prev)"
  define m2 where "m2 = handleDeletions (mixin (nodeMap prev) (nodeMap newSub))
                          (buildNodeMap old') (nodeMap newSub)"
  have upd: "update hash build u =
      (case update_parents hash t1 (Some p) of
         None \<Rightarrow> None
       | Some (Inl e) \<Rightarrow> Some (Inl e, u\<lparr>uerrors := errs\<rparr>)
       | Some (Inr t2) \<Rightarrow>
           Some (Inr (Some \<lparr>newDOM = prev\<lparr>root := t2, nodeMap := m2\<rparr>,
                           oldSubtree = Some \<lparr>root = old', nodeMap = buildNodeMap old', errors = None\<rparr>,
                           newSubtree = newSub\<lparr>root := new'\<rparr>\<rparr>),
                 u\<lparr>uerrors := errs, previousDOM := Some (prev\<lparr>root := t2, nodeMap := m2\<rparr>),
                   usession := mutate_alias (Some prev) (prev\<lparr>root := t2, nodeMap := m2\<rparr>)
                                 (usession (u\<lparr>uerrors := errs\<rparr>))\<rparr>))"
    using b c pv ob old par pn ix
    by (simp add: update_def Let_def new'_def old'_def t1_def m2_def
          split: option.splits sum.splits)
  from ret obtain t2 where up: "update_parents hash t1 (Some p) = Some (Inr t2)"
    and res: "res = \<lparr>newDOM = prev\<lparr>root := t2, nodeMap := m2\<rparr>,
                    oldSubtree = Some \<lparr>root = old', nodeMap = buildNodeMap old', errors = None\<rparr>,
                    newSubtree = newSub\<lparr>root := new'\<rparr>\<rparr>"
    unfolding upd by (auto split: option.splits sum.splits)
  have ent2: "entries t2 = entries t1"
    using update_parents_unsig[OF up] entries_unsig by metis
  have i: "i < length pcs" "oid (props (pcs ! i)) = ob" using indexOf_Some[OF ix] by simp_all
  have pn_in: "Element ppr pcs \<in> set (nodes (root prev))" using find_obj_Some(1)[OF pn] by simp
  have "pcs ! i \<in> set (nodes (Element ppr pcs))" using i(1) node_self[of "pcs ! i"] by (auto intro!: bexI[of _ "pcs ! i"])
  then have pcs_in: "pcs ! i \<in> set (nodes (root prev))" using nodes_trans[OF pn_in] by auto
  have old_in: "old \<in> set (nodes (root prev))" and old_oid: "oid (props old) = ob"
    using find_obj_Some(1)[OF old] by simp_all
  have same: "pcs ! i = old"
    using same_oid_same_node[OF d1 pcs_in old_in] i(2) old_oid by simp
  have m1: "mset (entries t1) + mset (entries (Element ppr pcs)) =
            mset (entries (root prev)) + mset (entries (set_child i new' (Element ppr pcs)))"
    unfolding t1_def by (rule map_obj_entries[OF d1 pn])
  have m2': "mset (entries (set_child i new' (Element ppr pcs))) + mset (entries old) =
            mset (entries (Element ppr pcs)) + mset (entries new')"
    using entries_list_update[OF i(1), of new'] same by (simp add: set_child_def)
  have "mset (entries t1) + mset (entries (Element ppr pcs)) + mset (entries old) =
        mset (entries (root prev)) + mset (entries (Element ppr pcs)) + mset (entries new')"
    using m1 m2' by (simp add: ac_simps)
  then have ms: "mset (entries t1) + mset (entries old) =
                 mset (entries (root prev)) + mset (entries new')"
    by (simp add: ac_simps)
  have dist: "distinct (entries (root prev))"
    using d1 by (simp add: oids_def distinct_map)
  have sub: "mset (entries old) \<subseteq># mset (entries (root prev))"
    by (rule entries_subtree[OF old_in])
  have S: "set (entries t2) =
           (set (entries (root prev)) - set (entries old)) \<union> set (entries (root newSub))"
    using set_after_replace[OF dist ms sub] by (simp add: ent2 new'_def entries_set_parent)
  have subs: "set (entries old) \<subseteq> set (entries (root prev))"
    using sub by (metis set_mset_mono set_mset_mset)
  have dk: "distinct (map fst (entries (root prev)))" using d2 by (simp add: keys_def)
  have K: "set (keys t2) = (set (keys (root prev)) - set (keys old)) \<union> set (keys (root newSub))"
    using fst_diff[OF dk subs] by (simp add: keys_set S image_Un)
  have dm_old: "dom (buildNodeMap old') = set (keys old)"
    using tr by (simp add: old'_def buildNodeMap_dom nodes_set_parent_truthy keys_set_parent)
  have dm_prev: "dom (nodeMap prev) = set (keys (root prev))" by (rule exact_map_dom[OF e1])
  have dm_new: "dom (nodeMap newSub) = set (keys (root newSub))" by (rule exact_map_dom[OF e2])
  have app: "\<And>k. m2 k = (if k \<in> set (keys old) \<and> k \<notin> set (keys (root newSub)) then None
                else (case nodeMap newSub k of Some v \<Rightarrow> Some v | None \<Rightarrow> nodeMap prev k))"
    by (simp add: m2_def handleDeletions_apply dm_old dm_new)
  have A: "dom m2 = set (keys t2)"
  proof (rule set_eqI)
    fix k
    have np: "nodeMap prev k = None \<longleftrightarrow> k \<notin> set (keys (root prev))"
      using dm_prev by (metis domIff)
    have nn: "nodeMap newSub k = None \<longleftrightarrow> k \<notin> set (keys (root newSub))"
      using dm_new by (metis domIff)
    have "m2 k = None \<longleftrightarrow> k \<notin> set (keys t2)"
      using np nn by (auto simp: app K split: option.splits)
    then show "k \<in> dom m2 \<longleftrightarrow> k \<in> set (keys t2)" by (simp add: domIff)
  qed
  have B: "\<forall>e \<in> set (entries new'). m2 (fst e) = Some (snd e)"
  proof
    fix e assume "e \<in> set (entries new')"
    then have "(fst e, snd e) \<in> set (entries (root newSub))"
      by (simp add: new'_def entries_set_parent)
    then have n: "nodeMap newSub (fst e) = Some (snd e)" using e2 by (simp add: exact_map_def)
    then have "fst e \<in> set (keys (root newSub))" using dm_new by auto
    then show "m2 (fst e) = Some (snd e)" using n by (simp add: app)
  qed
  have C: "\<forall>k \<in> set (keys old) - set (keys (root newSub)). m2 k = None \<and> k \<notin> set (keys t2)"
    by (auto simp: app K)
  have D: "set (keys (root newSub)) \<inter> (set (keys (root prev)) - set (keys old)) = {} \<longrightarrow>
            exact_map m2 t2"
  proof
    assume dj: "set (keys (root newSub)) \<inter> (set (keys (root prev)) - set (keys old)) = {}"
    show "exact_map m2 t2"
      unfolding exact_map_def
    proof (intro allI)
      fix k v
      show "m2 k = Some v \<longleftrightarrow> (k, v) \<in> set (entries t2)"
      proof (cases "k \<in> set (keys (root newSub))")
        case True
        then have "k \<notin> set (keys (root prev)) - set (keys old)" using dj by auto
        then have "(k, v) \<notin> set (entries (root prev)) - set (entries old)"
          using fst_diff[OF dk subs] by (force simp: keys_set)
        then have r: "(k, v) \<in> set (entries t2) \<longleftrightarrow> (k, v) \<in> set (entries (root newSub))"
          unfolding S by blast
        obtain w where w: "nodeMap newSub k = Some w" using True dm_new by auto
        have "m2 k = Some w" using True w by (simp add: app)
        then have "m2 k = Some v \<longleftrightarrow> nodeMap newSub k = Some v" using w by simp
        also have "\<dots> \<longleftrightarrow> (k, v) \<in> set (entries (root newSub))"
          using e2 by (simp add: exact_map_def)
        finally show ?thesis using r by simp
      next
        case False
        then have nn: "nodeMap newSub k = None" using dm_new by auto
        have ne: "(k, v) \<notin> set (entries (root newSub))" using False by (force simp: keys_set)
        show ?thesis
        proof (cases "k \<in> set (keys old)")
          case True
          then have "k \<notin> fst ` (set (entries (root prev)) - set (entries old))"
            using fst_diff[OF dk subs] by (simp add: keys_set)
          then have "(k, v) \<notin> set (entries (root prev)) - set (entries old)" by force
          then show ?thesis using True False ne by (simp add: app S)
        next
          case no: False
          then have "(k, v) \<notin> set (entries old)" by (force simp: keys_set)
          then show ?thesis using no False nn ne e1 by (simp add: app S exact_map_def)
        qed
      qed
    qed
  qed
  show ?thesis
    using A B C D S by (simp add: res new'_def)
qed

lemma updatePositions_ex_remove_hi: "updatePositions ex_div ex_remove_hi = ex_div6"
  by (simp add: updatePositions_def ex_div_def ex_p_def ex_remove_hi_def mk_props_def mk_text_def
        sign_def comparePoints_def update_pos_def rowChange_def columnChange_def Let_def ex_div6_def)

lemma ex_updater6_eq:
  "previousDOM ex_updater6 = Some (ex_dom\<lparr>root := ex_div6\<rparr>)"
  "changedTagID ex_updater6 = Num 2"
  "isIncremental ex_updater6"
  "btext ex_updater6 = ''<p></p>''"
  by (simp_all add: ex_updater6_def DOMUpdater_def Let_def session_on_def ex_dom_def
        mutate_alias_def same_object_def updatePositions_ex_remove_hi delta_text_def
        getNodeAtDocumentPos_def dangerous_chars_def,
      simp_all add: ex_remove_hi_def ex_div6_def dangerous_chars_def comparePoints_def
        mk_props_def mk_text_def)

lemma keyOf_small: "show_int 1 = ''1''" "show_int 2 = ''2''"
  by (simp_all add: show_int_def show_nat.simps)

lemma update_parents_root:
  "find_obj p t = Some pn \<Longrightarrow> parent (props pn) = None \<Longrightarrow>
   update_parents h t (Some p) = Some (Inr (map_obj p (node_update h) t))"
  by (subst update_parents.simps, simp, subst update_parents.simps, simp)

theorem nodeMap_after_splice_witness:
  "\<exists>res u'. update ex_hash ex_build6 ex_updater6 = Some (Inr (Some res), u')
     \<and> root (newDOM res) =
         Element ((mk_props 1 (Num 1) ''div'' \<lparr>row = 0, column = 0\<rparr> \<lparr>row = 0, column = 18\<rparr> None)
                    \<lparr>signature := 2\<rparr>)
           [Element (mk_props 12 (Num 2) ''p'' \<lparr>row = 0, column = 5\<rparr> \<lparr>row = 0, column = 12\<rparr> (Some 1)) []]
     \<and> dom (nodeMap (newDOM res)) = {''1'', ''2''}
     \<and> nodeMap (newDOM res) ''2'' = Some 12
     \<and> nodeMap (newDOM res) ''2.0'' = None
     \<and> exact_map (nodeMap (newDOM res)) (root (newDOM res))"
proof -
  let ?prev = "ex_dom\<lparr>root := ex_div6\<rparr>"
  have b: "ex_build6 ex_updater6 = Inr (Some ex_new_p, None)" by (simp add: ex_build6_def)
  have c: "truthy (changedTagID ex_updater6)" by (simp add: ex_updater6_eq)
  have ob: "nodeMap ?prev (keyOf (changedTagID ex_updater6)) = Some 2"
    by (simp add: ex_updater6_eq keyOf_small ex_dom_def)
  have old: "find_obj 2 (root ?prev) = Some ex_old_p"
    by (simp add: ex_div6_def ex_old_p_def mk_props_def)
  have par: "parent (props ex_old_p) = Some 1" by (simp add: ex_old_p_def mk_props_def)
  have pn: "find_obj 1 (root ?prev) =
      Some (Element (mk_props 1 (Num 1) ''div'' \<lparr>row = 0, column = 0\<rparr> \<lparr>row = 0, column = 18\<rparr> None) [ex_old_p])"
    by (simp add: ex_div6_def ex_old_p_def mk_props_def)
  have ix: "indexOf [ex_old_p] 2 = Some 0" by (simp add: ex_old_p_def mk_props_def)
  have d1: "distinct (oids (root ?prev))"
    by (simp add: oids_def ex_div6_def mk_props_def mk_text_def)
  have d2: "distinct (keys (root ?prev))"
    by (simp add: keys_def ex_div6_def mk_props_def mk_text_def keyOf_small)
  have e1: "exact_map (nodeMap ?prev) (root ?prev)"
    by (auto simp: exact_map_def ex_dom_def ex_div6_def mk_props_def mk_text_def keyOf_small
             split: if_splits)
  have e2: "exact_map (nodeMap ex_new_p) (root ex_new_p)"
    by (auto simp: exact_map_def ex_new_p_def mk_props_def keyOf_small split: if_splits)
  have tr: "\<forall>n \<in> set (nodes ex_old_p). truthy (tagID (props n))"
    by (simp add: ex_old_p_def mk_props_def mk_text_def)
  have up: "update_parents ex_hash
              (map_obj 1 (set_child 0 (set_parent (Some 1) (root ex_new_p))) (root ?prev)) (Some 1)
            = Some (Inr (Element ((mk_props 1 (Num 1) ''div'' \<lparr>row = 0, column = 0\<rparr>
                                     \<lparr>row = 0, column = 18\<rparr> None)\<lparr>signature := 2\<rparr>)
           [Element (mk_props 12 (Num 2) ''p'' \<lparr>row = 0, column = 5\<rparr> \<lparr>row = 0, column = 12\<rparr> (Some 1)) []]))"
    by (subst update_parents_root)
       (simp_all add: ex_div6_def ex_new_p_def mk_props_def set_child_def set_parent_def
          node_update_def ex_hash_def, simp)
  obtain res u' where ret: "update ex_hash ex_build6 ex_updater6 = Some (Inr (Some res), u')"
    and rt: "root (newDOM res) = Element ((mk_props 1 (Num 1) ''div'' \<lparr>row = 0, column = 0\<rparr>
                                     \<lparr>row = 0, column = 18\<rparr> None)\<lparr>signature := 2\<rparr>)
           [Element (mk_props 12 (Num 2) ''p'' \<lparr>row = 0, column = 5\<rparr> \<lparr>row = 0, column = 12\<rparr> (Some 1)) []]"
    and ns: "root (newSubtree res) = set_parent (Some 1) (root ex_new_p)"
    using b c ob old par pn ix up
    by (simp add: update_def Let_def ex_updater6_eq(1))
  have dj: "set (keys (root ex_new_p)) \<inter> (set (keys (root ?prev)) - set (keys ex_old_p)) = {}"
    by (simp add: keys_def ex_new_p_def ex_div6_def ex_old_p_def mk_props_def mk_text_def keyOf_small)
  note th = nodeMap_after_splice[OF ret b c ex_updater6_eq(1) ob old par pn ix d1 d2 e1 e2 tr]
  have A: "dom (nodeMap (newDOM res)) = {''1'', ''2''}"
    using th by (simp add: rt keys_def mk_props_def keyOf_small)
  have B: "nodeMap (newDOM res) ''2'' = Some 12"
    using th by (simp add: ns ex_new_p_def mk_props_def set_parent_def keyOf_small)
  have C: "nodeMap (newDOM res) ''2.0'' = None"
    using th by (simp add: ns ex_new_p_def ex_old_p_def mk_props_def mk_text_def keys_def keyOf_small)
  have D: "exact_map (nodeMap (newDOM res)) (root (newDOM res))"
    using th dj by simp
  show ?thesis using ret rt A B C D by blast
qed

section \<open>The updates that do not splice\<close>

text \<open>
  Claim C8. When the node that the node map gives for \<open>changedTagID\<close> has no parent, as the
  root of the document has none, \<open>update\<close> returns the default result: the old side is the
  whole previous tree, the new side and \<open>newDOM\<close> are the whole tree the builder returned,
  and the previous tree is not touched.
\<close>

theorem root_fallback:
  assumes "build u = Inr (Some newSub, errs)"
    and "truthy (changedTagID u)" and "previousDOM u = Some prev"
    and "nodeMap prev (keyOf (changedTagID u)) = Some ob"
    and "find_obj ob (root prev) = Some old"
    and "parent (props old) = None"
  shows "update hash build u =
           Some (Inr (Some \<lparr>newDOM = newSub, oldSubtree = Some prev, newSubtree = newSub\<rparr>),
                 u\<lparr>uerrors := errs\<rparr>)
       \<and> previousDOM (u\<lparr>uerrors := errs\<rparr>) = Some prev"
  using assms by (simp add: update_def Let_def)

lemma updatePositions_ex_append: "updatePositions ex_div ex_append = ex_div8"
  by (simp add: updatePositions_def ex_div_def ex_p_def ex_append_def mk_props_def mk_text_def
        sign_def comparePoints_def update_pos_def rowChange_def columnChange_def Let_def ex_div8_def)

lemma ex_updater8_eq:
  "previousDOM ex_updater8 = Some (ex_dom\<lparr>root := ex_div8\<rparr>)"
  "changedTagID ex_updater8 = Num 1"
  "isIncremental ex_updater8"
  "btext ex_updater8 = ''<div><p>hi</p>!</div>''"
  by (simp_all add: ex_updater8_def DOMUpdater_def Let_def session_on_def ex_dom_def
        mutate_alias_def same_object_def updatePositions_ex_append delta_text_def
        getNodeAtDocumentPos_def dangerous_chars_def,
      simp_all add: ex_append_def ex_div8_def dangerous_chars_def comparePoints_def
        mk_props_def mk_text_def)

theorem root_fallback_witness:
  "ex_build8 ex_updater8 = Inr (Some ex_new_div, None)
   \<and> truthy (changedTagID ex_updater8)
   \<and> previousDOM ex_updater8 = Some (ex_dom\<lparr>root := ex_div8\<rparr>)
   \<and> nodeMap (ex_dom\<lparr>root := ex_div8\<rparr>) (keyOf (changedTagID ex_updater8)) = Some 1
   \<and> find_obj 1 (root (ex_dom\<lparr>root := ex_div8\<rparr>)) = Some ex_div8
   \<and> parent (props ex_div8) = None
   \<and> update ex_hash ex_build8 ex_updater8 =
        Some (Inr (Some \<lparr>newDOM = ex_new_div, oldSubtree = Some (ex_dom\<lparr>root := ex_div8\<rparr>),
                         newSubtree = ex_new_div\<rparr>),
              ex_updater8\<lparr>uerrors := None\<rparr>)"
proof -
  have b: "ex_build8 ex_updater8 = Inr (Some ex_new_div, None)" by (simp add: ex_build8_def)
  have c: "truthy (changedTagID ex_updater8)" by (simp add: ex_updater8_eq)
  have ob: "nodeMap (ex_dom\<lparr>root := ex_div8\<rparr>) (keyOf (changedTagID ex_updater8)) = Some 1"
    by (simp add: ex_updater8_eq keyOf_small ex_dom_def)
  have old: "find_obj 1 (root (ex_dom\<lparr>root := ex_div8\<rparr>)) = Some ex_div8"
    by (simp add: ex_div8_def mk_props_def)
  have par: "parent (props ex_div8) = None" by (simp add: ex_div8_def mk_props_def)
  show ?thesis
    using root_fallback[where build = ex_build8 and hash = ex_hash,
            OF b c ex_updater8_eq(1) ob old par] b c ob old par
      ex_updater8_eq(1)
    by simp
qed











section \<open>The reconciler\<close>

text \<open>
  The three facts below are by the induction that follows \<open>_processElement\<close> and its loop
  over the children: what the processing makes of the identifiers and attributes, of the
  identifiers of the text nodes, and of the variable \<open>root\<close>.
\<close>

lemma observed_simps:
  "observed (Text pr) = []"
  "observed (Element pr cs) =
     (attr_get (attributes pr) ''data-cloud9-id'', attr_delete ''data-cloud9-id'' (attributes pr))
       # concat (map observed cs)"
proof -
  show "observed (Text pr) = []" by (simp add: observed_def)
  have "concat (map (\<lambda>c. map (\<lambda>e. (attr_get (attributes (props e)) ''data-cloud9-id'',
                           attr_delete ''data-cloud9-id'' (attributes (props e)))) (elems c)) cs)
        = concat (map observed cs)"
    by (rule concat_map_cong) (simp add: observed_def)
  then show "observed (Element pr cs) =
     (attr_get (attributes pr) ''data-cloud9-id'', attr_delete ''data-cloud9-id'' (attributes pr))
       # concat (map observed cs)"
    by (simp add: observed_def map_concat comp_def)
qed

lemma adapted_simps:
  "adapted (Text pr) = []"
  "adapted (Element pr cs) = (tagID pr, attributes pr) # concat (map adapted cs)"
proof -
  show "adapted (Text pr) = []" by (simp add: adapted_def)
  have "concat (map (\<lambda>c. map (\<lambda>e. (tagID (props e), attributes (props e))) (elems c)) cs)
        = concat (map adapted cs)"
    by (rule concat_map_cong) (simp add: adapted_def)
  then show "adapted (Element pr cs) = (tagID pr, attributes pr) # concat (map adapted cs)"
    by (simp add: adapted_def map_concat comp_def)
qed

lemma adapted_node_update: "adapted (node_update hash n) = adapted n"
  by (cases n) (simp_all add: node_update_def adapted_simps)

lemma process_adapts:
  "adapted (fst (processElement gt hash sid pr cs st)) = observed (Element pr cs)"
  "\<exists>rest. fst (processChildren gt hash sid pr1 done todo st) = done @ rest
       \<and> length rest = length todo
       \<and> concat (map adapted rest) = concat (map observed todo)"
proof (induction gt hash sid pr cs st and gt hash sid pr1 "done" todo st
       rule: processElement_processChildren.induct)
  case (1 getTextNodeID hash sessionRootTagID pr cs st)
  then show ?case
    by (auto simp: Let_def adapted_node_update adapted_simps observed_simps split: prod.splits)
next
  case (2 getTextNodeID hash sessionRootTagID pr1 "done" st)
  then show ?case by simp
next
  case (3 getTextNodeID hash sessionRootTagID pr1 "done" cpr ccs todo st)
  obtain xa y where xy: "processElement getTextNodeID hash sessionRootTagID
            (cpr\<lparr>parent := Some (oid pr1)\<rparr>) ccs st = (xa, y)"
    by (cases "processElement getTextNodeID hash sessionRootTagID
            (cpr\<lparr>parent := Some (oid pr1)\<rparr>) ccs st")
  from 3(1) xy have a: "adapted xa = observed (Element cpr ccs)"
    by (simp add: observed_simps)
  from 3(2)[OF refl xy[symmetric]] obtain rest where
    r: "fst (processChildren getTextNodeID hash sessionRootTagID pr1 (done @ [xa]) todo y)
          = (done @ [xa]) @ rest" "length rest = length todo"
       "concat (map adapted rest) = concat (map observed todo)"
    by blast
  have "fst (processChildren getTextNodeID hash sessionRootTagID pr1 done
          (Element cpr ccs # todo) st) = done @ (xa # rest)"
    using xy r(1) by simp
  moreover have "length (xa # rest) = length (Element cpr ccs # todo)"
    using r(2) by simp
  moreover have "concat (map adapted (xa # rest)) = concat (map observed (Element cpr ccs # todo))"
    using a r(3) by simp
  ultimately show ?case by blast
next
  case (4 getTextNodeID hash sessionRootTagID pr1 "done" cpr todo st)
  define x where "x = node_update hash (Text (cpr\<lparr>parent := Some (oid pr1)\<rparr>))"
  define xa where "xa = getTextNodeID (Element pr1 (done @ x # todo)) (length done)"
  define xb where "xb = Text (props x\<lparr>tagID := xa\<rparr>)"
  from 4[OF x_def xa_def xb_def] obtain rest where
    r: "fst (processChildren getTextNodeID hash sessionRootTagID pr1 (done @ [xb]) todo
           ((fst st)(keyOf xa \<mapsto> oid cpr), snd st)) = (done @ [xb]) @ rest"
       "length rest = length todo"
       "concat (map adapted rest) = concat (map observed todo)"
    by blast
  have "fst (processChildren getTextNodeID hash sessionRootTagID pr1 done
          (Text cpr # todo) st) = done @ (xb # rest)"
    using r(1) by (simp add: Let_def x_def xa_def xb_def)
  moreover have "length (xb # rest) = length (Text cpr # todo)"
    using r(2) by simp
  moreover have "concat (map adapted (xb # rest)) = concat (map observed (Text cpr # todo))"
    using r(3) by (simp add: xb_def adapted_simps observed_simps)
  ultimately show ?case by blast
qed

lemma isElement_processElement: "isElement (fst (processElement gt hash sid pr cs st))"
  by (simp add: Let_def node_update_def split: prod.splits)

lemma elems_node_update_Element:
  "elems (node_update hash (Element pr cs)) = node_update hash (Element pr cs) # concat (map elems cs)"
  by (simp add: node_update_def)

lemma process_text_ids:
  "\<forall>e\<in>set (elems (fst (processElement gt hash sid pr cs st))). text_id_from_position gt e"
  "\<exists>rest. fst (processChildren gt hash sid pr1 done todo st) = done @ rest
       \<and> (\<forall>c\<in>set rest. \<forall>e\<in>set (elems c). text_id_from_position gt e)
       \<and> (\<forall>j<length rest. \<not> isElement (rest ! j) \<longrightarrow>
            (\<exists>p. tagID (props (rest ! j)) = gt p (length done + j) \<and> props p = pr1
               \<and> take (length done + j) (kids p) = done @ take j rest))"
proof (induction gt hash sid pr cs st and gt hash sid pr1 "done" todo st
       rule: processElement_processChildren.induct)
  case (1 getTextNodeID hash sessionRootTagID pr cs st)
  define pr1 where "pr1 = pr\<lparr>tagID := attr_get (attributes pr) ''data-cloud9-id'',
                attributes := attr_delete ''data-cloud9-id'' (attributes pr)\<rparr>"
  from 1[OF pr1_def] obtain rest where
    r: "fst (processChildren getTextNodeID hash sessionRootTagID pr1 [] cs st) = rest"
       "\<forall>c\<in>set rest. \<forall>e\<in>set (elems c). text_id_from_position getTextNodeID e"
       "\<forall>j<length rest. \<not> isElement (rest ! j) \<longrightarrow>
            (\<exists>p. tagID (props (rest ! j)) = getTextNodeID p j \<and> props p = pr1
               \<and> take j (kids p) = take j rest)"
    by auto
  have out: "fst (processElement getTextNodeID hash sessionRootTagID pr cs st)
               = node_update hash (Element pr1 rest)"
    using r(1) by (auto simp: Let_def pr1_def split: prod.splits)
  have "text_id_from_position getTextNodeID (node_update hash (Element pr1 rest))"
    unfolding text_id_from_position_def
  proof (intro allI impI)
    fix i assume i: "i < length (kids (node_update hash (Element pr1 rest)))"
      and t: "\<not> isElement (kids (node_update hash (Element pr1 rest)) ! i)"
    from i t r(3) obtain p where
      p: "tagID (props (rest ! i)) = getTextNodeID p i" "props p = pr1"
         "take i (kids p) = take i rest"
      by (auto simp: node_update_def)
    show "\<exists>p. tagID (props (kids (node_update hash (Element pr1 rest)) ! i)) = getTextNodeID p i
           \<and> props (node_update hash (Element pr1 rest))
               = (props p)\<lparr>signature := signature (props (node_update hash (Element pr1 rest)))\<rparr>
           \<and> take i (kids p) = take i (kids (node_update hash (Element pr1 rest)))"
      using p by (intro exI[of _ p]) (simp add: node_update_def)
  qed
  then show ?case
    using r(2) unfolding out elems_node_update_Element by auto
next
  case (2 getTextNodeID hash sessionRootTagID pr1 "done" st)
  then show ?case by simp
next
  case (3 getTextNodeID hash sessionRootTagID pr1 "done" cpr ccs todo st)
  obtain xa y where xy: "processElement getTextNodeID hash sessionRootTagID
            (cpr\<lparr>parent := Some (oid pr1)\<rparr>) ccs st = (xa, y)"
    by (cases "processElement getTextNodeID hash sessionRootTagID
            (cpr\<lparr>parent := Some (oid pr1)\<rparr>) ccs st")
  from 3(1) xy have a: "\<forall>e\<in>set (elems xa). text_id_from_position getTextNodeID e"
    by simp
  have el: "isElement xa"
    using isElement_processElement[of getTextNodeID hash sessionRootTagID
            "cpr\<lparr>parent := Some (oid pr1)\<rparr>" ccs st] xy by simp
  from 3(2)[OF refl xy[symmetric]] obtain rest where
    r: "fst (processChildren getTextNodeID hash sessionRootTagID pr1 (done @ [xa]) todo y)
          = (done @ [xa]) @ rest"
       "\<forall>c\<in>set rest. \<forall>e\<in>set (elems c). text_id_from_position getTextNodeID e"
       "\<forall>j<length rest. \<not> isElement (rest ! j) \<longrightarrow>
            (\<exists>p. tagID (props (rest ! j)) = getTextNodeID p (length (done @ [xa]) + j)
               \<and> props p = pr1
               \<and> take (length (done @ [xa]) + j) (kids p) = (done @ [xa]) @ take j rest)"
    by blast
  have "fst (processChildren getTextNodeID hash sessionRootTagID pr1 done
          (Element cpr ccs # todo) st) = done @ (xa # rest)"
    using xy r(1) by simp
  moreover have "\<forall>c\<in>set (xa # rest). \<forall>e\<in>set (elems c). text_id_from_position getTextNodeID e"
    using a r(2) by simp
  moreover have "\<forall>j<length (xa # rest). \<not> isElement ((xa # rest) ! j) \<longrightarrow>
            (\<exists>p. tagID (props ((xa # rest) ! j)) = getTextNodeID p (length done + j)
               \<and> props p = pr1
               \<and> take (length done + j) (kids p) = done @ take j (xa # rest))"
  proof (intro allI impI)
    fix j assume j: "j < length (xa # rest)" and t: "\<not> isElement ((xa # rest) ! j)"
    from t el obtain j' where j': "j = Suc j'" by (cases j) auto
    with j t r(3) show "\<exists>p. tagID (props ((xa # rest) ! j)) = getTextNodeID p (length done + j)
               \<and> props p = pr1
               \<and> take (length done + j) (kids p) = done @ take j (xa # rest)"
      by auto
  qed
  ultimately show ?case by blast
next
  case (4 getTextNodeID hash sessionRootTagID pr1 "done" cpr todo st)
  define x where "x = node_update hash (Text (cpr\<lparr>parent := Some (oid pr1)\<rparr>))"
  define xa where "xa = getTextNodeID (Element pr1 (done @ x # todo)) (length done)"
  define xb where "xb = Text (props x\<lparr>tagID := xa\<rparr>)"
  from 4[OF x_def xa_def xb_def] obtain rest where
    r: "fst (processChildren getTextNodeID hash sessionRootTagID pr1 (done @ [xb]) todo
           ((fst st)(keyOf xa \<mapsto> oid cpr), snd st)) = (done @ [xb]) @ rest"
       "\<forall>c\<in>set rest. \<forall>e\<in>set (elems c). text_id_from_position getTextNodeID e"
       "\<forall>j<length rest. \<not> isElement (rest ! j) \<longrightarrow>
            (\<exists>p. tagID (props (rest ! j)) = getTextNodeID p (length (done @ [xb]) + j)
               \<and> props p = pr1
               \<and> take (length (done @ [xb]) + j) (kids p) = (done @ [xb]) @ take j rest)"
    by blast
  have "fst (processChildren getTextNodeID hash sessionRootTagID pr1 done
          (Text cpr # todo) st) = done @ (xb # rest)"
    using r(1) by (simp add: Let_def x_def xa_def xb_def)
  moreover have "\<forall>c\<in>set (xb # rest). \<forall>e\<in>set (elems c). text_id_from_position getTextNodeID e"
    using r(2) by (simp add: xb_def)
  moreover have "\<forall>j<length (xb # rest). \<not> isElement ((xb # rest) ! j) \<longrightarrow>
            (\<exists>p. tagID (props ((xb # rest) ! j)) = getTextNodeID p (length done + j)
               \<and> props p = pr1
               \<and> take (length done + j) (kids p) = done @ take j (xb # rest))"
  proof (intro allI impI)
    fix j assume j: "j < length (xb # rest)" and t: "\<not> isElement ((xb # rest) ! j)"
    show "\<exists>p. tagID (props ((xb # rest) ! j)) = getTextNodeID p (length done + j)
               \<and> props p = pr1
               \<and> take (length done + j) (kids p) = done @ take j (xb # rest)"
    proof (cases j)
      case 0
      then show ?thesis
        by (intro exI[of _ "Element pr1 (done @ x # todo)"]) (simp add: xb_def xa_def)
    next
      case (Suc j')
      with j t r(3) show ?thesis by auto
    qed
  qed
  ultimately show ?case by blast
qed

lemma process_root:
  "((\<forall>e\<in>set (elems (fst (processElement gt hash sid pr cs st))). tagID (props e) \<noteq> sid)
      \<longrightarrow> snd (snd (processElement gt hash sid pr cs st)) = snd st)
   \<and> ((\<exists>e\<in>set (elems (fst (processElement gt hash sid pr cs st))). tagID (props e) = sid)
      \<longrightarrow> (\<exists>e\<in>set (elems (fst (processElement gt hash sid pr cs st))).
             tagID (props e) = sid \<and> snd (snd (processElement gt hash sid pr cs st)) = Some e))"
  "\<exists>rest. fst (processChildren gt hash sid pr1 done todo st) = done @ rest
     \<and> ((\<forall>c\<in>set rest. \<forall>e\<in>set (elems c). tagID (props e) \<noteq> sid)
      \<longrightarrow> snd (snd (processChildren gt hash sid pr1 done todo st)) = snd st)
     \<and> ((\<exists>c\<in>set rest. \<exists>e\<in>set (elems c). tagID (props e) = sid)
      \<longrightarrow> (\<exists>c\<in>set rest. \<exists>e\<in>set (elems c).
             tagID (props e) = sid \<and> snd (snd (processChildren gt hash sid pr1 done todo st)) = Some e))"
proof (induction gt hash sid pr cs st and gt hash sid pr1 "done" todo st
       rule: processElement_processChildren.induct)
  case (1 getTextNodeID hash sessionRootTagID pr cs st)
  define pr1 where "pr1 = pr\<lparr>tagID := attr_get (attributes pr) ''data-cloud9-id'',
                attributes := attr_delete ''data-cloud9-id'' (attributes pr)\<rparr>"
  define res where "res = processChildren getTextNodeID hash sessionRootTagID pr1 [] cs st"
  from 1[OF pr1_def] have
    r: "(\<forall>c\<in>set (fst res). \<forall>e\<in>set (elems c). tagID (props e) \<noteq> sessionRootTagID)
          \<longrightarrow> snd (snd res) = snd st"
       "(\<exists>c\<in>set (fst res). \<exists>e\<in>set (elems c). tagID (props e) = sessionRootTagID)
      \<longrightarrow> (\<exists>c\<in>set (fst res). \<exists>e\<in>set (elems c).
             tagID (props e) = sessionRootTagID \<and> snd (snd res) = Some e)"
    unfolding res_def by auto
  define out where "out = node_update hash (Element pr1 (fst res))"
  have pe: "processElement getTextNodeID hash sessionRootTagID pr cs st
               = (out, ((fst (snd res))(keyOf (tagID pr1) \<mapsto> oid pr1),
                    if tagID pr1 = sessionRootTagID then Some out else snd (snd res)))"
    by (simp add: Let_def pr1_def res_def out_def split: prod.splits)
  have el: "elems out = out # concat (map elems (fst res))"
    unfolding out_def by (rule elems_node_update_Element)
  have tg: "tagID (props out) = tagID pr1"
    by (simp add: out_def node_update_def)
  show ?case
  proof (cases "tagID pr1 = sessionRootTagID")
    case True
    then show ?thesis unfolding pe using el tg by auto
  next
    case False
    then show ?thesis unfolding pe using el tg r by auto
  qed
next
  case (2 getTextNodeID hash sessionRootTagID pr1 "done" st)
  then show ?case by simp
next
  case (3 getTextNodeID hash sessionRootTagID pr1 "done" cpr ccs todo st)
  obtain xa y where xy: "processElement getTextNodeID hash sessionRootTagID
            (cpr\<lparr>parent := Some (oid pr1)\<rparr>) ccs st = (xa, y)"
    by (cases "processElement getTextNodeID hash sessionRootTagID
            (cpr\<lparr>parent := Some (oid pr1)\<rparr>) ccs st")
  from 3(1) xy have a:
    "(\<forall>e\<in>set (elems xa). tagID (props e) \<noteq> sessionRootTagID) \<longrightarrow> snd y = snd st"
    "(\<exists>e\<in>set (elems xa). tagID (props e) = sessionRootTagID)
      \<longrightarrow> (\<exists>e\<in>set (elems xa). tagID (props e) = sessionRootTagID \<and> snd y = Some e)"
    by auto
  define res where "res = processChildren getTextNodeID hash sessionRootTagID pr1 (done @ [xa]) todo y"
  from 3(2)[OF refl xy[symmetric]] obtain rest where
    r: "fst res = (done @ [xa]) @ rest"
       "(\<forall>c\<in>set rest. \<forall>e\<in>set (elems c). tagID (props e) \<noteq> sessionRootTagID)
          \<longrightarrow> snd (snd res) = snd y"
       "(\<exists>c\<in>set rest. \<exists>e\<in>set (elems c). tagID (props e) = sessionRootTagID)
      \<longrightarrow> (\<exists>c\<in>set rest. \<exists>e\<in>set (elems c).
             tagID (props e) = sessionRootTagID \<and> snd (snd res) = Some e)"
    unfolding res_def by blast
  have eq: "processChildren getTextNodeID hash sessionRootTagID pr1 done
          (Element cpr ccs # todo) st = res"
    using xy by (simp add: res_def)
  have "fst res = done @ (xa # rest)" using r(1) by simp
  moreover have "(\<forall>c\<in>set (xa # rest). \<forall>e\<in>set (elems c). tagID (props e) \<noteq> sessionRootTagID)
          \<longrightarrow> snd (snd res) = snd st"
    using a(1) r(2) by simp
  moreover have "(\<exists>c\<in>set (xa # rest). \<exists>e\<in>set (elems c). tagID (props e) = sessionRootTagID)
      \<longrightarrow> (\<exists>c\<in>set (xa # rest). \<exists>e\<in>set (elems c).
             tagID (props e) = sessionRootTagID \<and> snd (snd res) = Some e)"
  proof (cases "\<exists>c\<in>set rest. \<exists>e\<in>set (elems c). tagID (props e) = sessionRootTagID")
    case True
    with r(3) show ?thesis by auto
  next
    case False
    with r(2) have "snd (snd res) = snd y" by blast
    with a(2) False show ?thesis by auto
  qed
  ultimately show ?case unfolding eq by blast
next
  case (4 getTextNodeID hash sessionRootTagID pr1 "done" cpr todo st)
  define x where "x = node_update hash (Text (cpr\<lparr>parent := Some (oid pr1)\<rparr>))"
  define xa where "xa = getTextNodeID (Element pr1 (done @ x # todo)) (length done)"
  define xb where "xb = Text (props x\<lparr>tagID := xa\<rparr>)"
  define res where "res = processChildren getTextNodeID hash sessionRootTagID pr1 (done @ [xb]) todo
           ((fst st)(keyOf xa \<mapsto> oid cpr), snd st)"
  from 4[OF x_def xa_def xb_def] obtain rest where
    r: "fst res = (done @ [xb]) @ rest"
       "(\<forall>c\<in>set rest. \<forall>e\<in>set (elems c). tagID (props e) \<noteq> sessionRootTagID)
          \<longrightarrow> snd (snd res) = snd st"
       "(\<exists>c\<in>set rest. \<exists>e\<in>set (elems c). tagID (props e) = sessionRootTagID)
      \<longrightarrow> (\<exists>c\<in>set rest. \<exists>e\<in>set (elems c).
             tagID (props e) = sessionRootTagID \<and> snd (snd res) = Some e)"
    unfolding res_def by auto
  have eq: "processChildren getTextNodeID hash sessionRootTagID pr1 done
          (Text cpr # todo) st = res"
    by (simp add: Let_def x_def xa_def xb_def res_def)
  have "fst res = done @ (xb # rest)" using r(1) by simp
  moreover have "(\<forall>c\<in>set (xb # rest). \<forall>e\<in>set (elems c). tagID (props e) \<noteq> sessionRootTagID)
          \<longrightarrow> snd (snd res) = snd st"
    using r(2) by (simp add: xb_def)
  moreover have "(\<exists>c\<in>set (xb # rest). \<exists>e\<in>set (elems c). tagID (props e) = sessionRootTagID)
      \<longrightarrow> (\<exists>c\<in>set (xb # rest). \<exists>e\<in>set (elems c).
             tagID (props e) = sessionRootTagID \<and> snd (snd res) = Some e)"
    using r(3) by (simp add: xb_def)
  ultimately show ?case unfolding eq by blast
qed

lemma attr_delete_absent: "map_of (attr_delete k as) k = None"
  by (induction as) (auto simp: attr_delete_def)

text \<open>
  Claim C7. Given an observed tree whose root is an element, \<open>_processBrowserSimpleDOM\<close>
  returns, and in the processed tree \<open>b\<close>: every element has as its identifier the value
  of its \<open>data-cloud9-id\<close> attribute (\<open>Undefined\<close> when it has none) and as its attributes
  the ones it had without that one, so that no element has the attribute any more; the
  identifier of every text node is \<open>getTextNodeID\<close> of its position in its parent; the root
  of the returned tree \<open>d\<close> is an element of \<open>b\<close> with the identifier \<open>sessionRootTagID\<close>
  when \<open>b\<close> has such an element (the comparison is \<open>===\<close>: a string does not match a
  number), and \<open>b\<close> itself when it has none. \<open>_getBrowserDiff\<close> passes the identifier of the
  root of the session's tree as \<open>sessionRootTagID\<close> and hands \<open>d\<close> to the diff. A root that
  is a text node has no \<open>attributes\<close>, and the function throws.
\<close>

theorem reconciler_adaptation:
  "\<exists>b d. processBrowserSimpleDOM getTextNodeID hash (Element pr cs) sessionRootTagID = Inr (b, d)
     \<and> map (\<lambda>e. (tagID (props e), attributes (props e))) (elems b)
         = map (\<lambda>e. (attr_get (attributes (props e)) ''data-cloud9-id'',
                      attr_delete ''data-cloud9-id'' (attributes (props e)))) (elems (Element pr cs))
     \<and> (\<forall>e\<in>set (elems b). map_of (attributes (props e)) ''data-cloud9-id'' = None)
     \<and> (\<forall>e\<in>set (elems b). text_id_from_position getTextNodeID e)
     \<and> ((\<exists>e\<in>set (elems b). tagID (props e) = sessionRootTagID)
          \<longrightarrow> root d \<in> set (elems b) \<and> tagID (props (root d)) = sessionRootTagID)
     \<and> ((\<forall>e\<in>set (elems b). tagID (props e) \<noteq> sessionRootTagID) \<longrightarrow> root d = b)
     \<and> (\<forall>s sessionRoot.
           sdom s = Some sessionRoot \<and> tagID (props (root sessionRoot)) = sessionRootTagID \<longrightarrow>
           getBrowserDiff domdiff getTextNodeID hash s (Element pr cs)
             = Inr \<lparr>diff = domdiff (Some sessionRoot) d, browser = d, bsession = sessionRoot\<rparr>)"
proof -
  define res where "res = processElement getTextNodeID hash sessionRootTagID pr cs (Map.empty, None)"
  define b where "b = fst res"
  define d where "d = \<lparr>root = (case snd (snd res) of Some r \<Rightarrow> r | None \<Rightarrow> b),
                        nodeMap = fst (snd res), errors = None\<rparr>"
  have run: "processBrowserSimpleDOM getTextNodeID hash (Element pr cs) sessionRootTagID = Inr (b, d)"
    unfolding d_def b_def res_def
    by (simp add: processBrowserSimpleDOM_def Let_def split_beta del: processElement.simps)
  have ad: "map (\<lambda>e. (tagID (props e), attributes (props e))) (elems b)
         = map (\<lambda>e. (attr_get (attributes (props e)) ''data-cloud9-id'',
                      attr_delete ''data-cloud9-id'' (attributes (props e)))) (elems (Element pr cs))"
    using process_adapts(1)[of getTextNodeID hash sessionRootTagID pr cs "(Map.empty, None)"]
    unfolding adapted_def observed_def b_def res_def .
  have no: "\<forall>e\<in>set (elems b). map_of (attributes (props e)) ''data-cloud9-id'' = None"
  proof
    fix e assume "e \<in> set (elems b)"
    then have "(tagID (props e), attributes (props e))
                 \<in> set (map (\<lambda>e. (tagID (props e), attributes (props e))) (elems b))"
      by force
    then have "\<exists>as. attributes (props e) = attr_delete ''data-cloud9-id'' as"
      unfolding ad by auto
    then obtain as where "attributes (props e) = attr_delete ''data-cloud9-id'' as" ..
    then show "map_of (attributes (props e)) ''data-cloud9-id'' = None"
      by (simp add: attr_delete_absent)
  qed
  have tx: "\<forall>e\<in>set (elems b). text_id_from_position getTextNodeID e"
    unfolding b_def res_def by (rule process_text_ids(1))
  have rt: "((\<forall>e\<in>set (elems b). tagID (props e) \<noteq> sessionRootTagID) \<longrightarrow> snd (snd res) = None)
     \<and> ((\<exists>e\<in>set (elems b). tagID (props e) = sessionRootTagID)
        \<longrightarrow> (\<exists>e\<in>set (elems b). tagID (props e) = sessionRootTagID \<and> snd (snd res) = Some e))"
    using process_root(1)[of getTextNodeID hash sessionRootTagID pr cs "(Map.empty, None)"]
    unfolding b_def res_def by simp
  have r1: "(\<exists>e\<in>set (elems b). tagID (props e) = sessionRootTagID)
          \<longrightarrow> root d \<in> set (elems b) \<and> tagID (props (root d)) = sessionRootTagID"
    using rt by (auto simp: d_def)
  have r2: "(\<forall>e\<in>set (elems b). tagID (props e) \<noteq> sessionRootTagID) \<longrightarrow> root d = b"
    using rt by (auto simp: d_def)
  have df: "\<forall>s sessionRoot.
           sdom s = Some sessionRoot \<and> tagID (props (root sessionRoot)) = sessionRootTagID \<longrightarrow>
           getBrowserDiff domdiff getTextNodeID hash s (Element pr cs)
             = Inr \<lparr>diff = domdiff (Some sessionRoot) d, browser = d, bsession = sessionRoot\<rparr>"
    using run by (auto simp: getBrowserDiff_def)
  from run ad no tx r1 r2 df show ?thesis by blast
qed

text \<open>
  The tree of the browser for \<open>ex_div\<close>: the root chosen is the \<open>div\<close> inside the \<open>html\<close>
  and the \<open>body\<close>, with its \<open>class\<close> attribute only.
\<close>

lemma ex_browser_Element: "Element (props ex_browser) (kids ex_browser) = ex_browser"
  by (simp add: ex_browser_def)

lemma ex_browser_observed:
  "map (\<lambda>e. (attr_get (attributes (props e)) ''data-cloud9-id'',
              attr_delete ''data-cloud9-id'' (attributes (props e)))) (elems ex_browser)
     = [(Undefined, []), (Undefined, []), (Num 1, [(''class'', Str ''a'')]), (Num 2, [])]"
  by (simp add: ex_browser_def mk_props_def mk_text_def attr_get_def attr_delete_def)

lemma ex_session_root: "sdom ex_session = Some ex_dom" "tagID (props (root ex_dom)) = Num 1"
  by (simp_all add: ex_session_def session_on_def ex_dom_def ex_div_def mk_props_def)

theorem reconciler_adaptation_witness:
  "\<exists>b d. processBrowserSimpleDOM ex_getTextNodeID ex_hash ex_browser (Num 1) = Inr (b, d)
     \<and> getBrowserDiff ex_domdiff ex_getTextNodeID ex_hash ex_session ex_browser
         = Inr \<lparr>diff = ex_domdiff (Some ex_dom) d, browser = d, bsession = ex_dom\<rparr>
     \<and> root d \<in> set (elems b) \<and> root d \<noteq> b
     \<and> tagID (props (root d)) = Num 1
     \<and> attributes (props (root d)) = [(''class'', Str ''a'')]"
proof -
  from reconciler_adaptation[of ex_getTextNodeID ex_hash "props ex_browser" "kids ex_browser"
         "Num 1" ex_domdiff]
  obtain b d where
    run: "processBrowserSimpleDOM ex_getTextNodeID ex_hash ex_browser (Num 1) = Inr (b, d)"
    and ad: "map (\<lambda>e. (tagID (props e), attributes (props e))) (elems b)
       = [(Undefined, []), (Undefined, []), (Num 1, [(''class'', Str ''a'')]), (Num 2, [])]"
    and r1: "(\<exists>e\<in>set (elems b). tagID (props e) = Num 1)
          \<longrightarrow> root d \<in> set (elems b) \<and> tagID (props (root d)) = Num 1"
    and df: "\<forall>s sessionRoot.
           sdom s = Some sessionRoot \<and> tagID (props (root sessionRoot)) = Num 1 \<longrightarrow>
           getBrowserDiff ex_domdiff ex_getTextNodeID ex_hash s ex_browser
             = Inr \<lparr>diff = ex_domdiff (Some sessionRoot) d, browser = d, bsession = sessionRoot\<rparr>"
    unfolding ex_browser_Element ex_browser_observed by (elim exE conjE) (rule that)
  have mem: "\<And>e. e \<in> set (elems b) \<Longrightarrow> (tagID (props e), attributes (props e))
       \<in> set [(Undefined, []), (Undefined, []), (Num 1, [(''class'', Str ''a'')]), (Num 2, [])]"
    unfolding ad[symmetric] by simp
  have "(Num 1, [(''class'', Str ''a'')])
          \<in> set (map (\<lambda>e. (tagID (props e), attributes (props e))) (elems b))"
    unfolding ad by simp
  then have ex: "\<exists>e\<in>set (elems b). tagID (props e) = Num 1" by auto
  with r1 have in_b: "root d \<in> set (elems b)" and tg: "tagID (props (root d)) = Num 1"
    by blast+
  from mem[OF in_b] tg have at: "attributes (props (root d)) = [(''class'', Str ''a'')]"
    by auto
  have "tagID (props b) = Undefined"
  proof (cases b)
    case (Element bp bcs)
    with ad show ?thesis by simp
  next
    case (Text bp)
    with ad show ?thesis by simp
  qed
  with tg have ne: "root d \<noteq> b" by auto
  from df ex_session_root have
    "getBrowserDiff ex_domdiff ex_getTextNodeID ex_hash ex_session ex_browser
         = Inr \<lparr>diff = ex_domdiff (Some ex_dom) d, browser = d, bsession = ex_dom\<rparr>"
    by blast
  with run in_b ne tg at show ?thesis by blast
qed

section \<open>Edits while the document cannot be parsed\<close>

text \<open>
  The calls of \<open>getUnappliedEditList\<close> on the document with two elements, one by one.
\<close>

lemma updatePositions_ex_div2: "updatePositions ex_div2 ex_break = ex_retained_root"
  by (simp add: updatePositions_def ex_div2_def ex_break_def mk_props_def mk_text_def
        sign_def comparePoints_def update_pos_def rowChange_def columnChange_def Let_def
        ex_retained_root_def)

lemma ex_step1:
  "getUnappliedEditList ex_hash ex_parser ex_domdiff
       (session_on ''<div><p>hi</xp><q>yo</q></div>'' (Some ex_dom2)) (Some ex_break) =
     Some (Inr \<lparr>r_errors = Some [''unbalanced''], r_dom = None, r_edits = None,
                 r_wasIncremental = None\<rparr>,
           session_on ''<div><p>hi</xp><q>yo</q></div>'' (Some ex_retained))"
proof -
  let ?s = "session_on ''<div><p>hi</xp><q>yo</q></div>'' (Some ex_dom2)"
  have s: "sdom ?s = Some ex_dom2" by (simp add: session_on_def)
  have bt: "btext (DOMUpdater (Some ex_dom2) ?s (Some ex_break)) = ''<p>hi</xp>''"
    by (simp add: DOMUpdater_def Let_def session_on_def ex_dom2_def
        mutate_alias_def same_object_def updatePositions_ex_div2 delta_text_def
        getNodeAtDocumentPos_def dangerous_chars_def,
      simp add: ex_break_def ex_retained_root_def dangerous_chars_def comparePoints_def
        mk_props_def mk_text_def)
  have b: "ex_parser (DOMUpdater (Some ex_dom2) ?s (Some ex_break)) = Inr (None, Some [''unbalanced''])"
    by (simp add: ex_parser_def bt)
  show ?thesis
    using failed_parse_keeps_tree[where build = ex_parser and hash = ex_hash
            and domdiff = ex_domdiff, OF s b]
    by (simp add: ex_dom2_def updatePositions_ex_div2 session_on_def ex_retained_def)
qed

lemma updatePositions_ex_bang:
  "updatePositions ex_retained_root ex_bang =
     Element (mk_props 1 (Num 1) ''div'' \<lparr>row = 0, column = 0\<rparr> \<lparr>row = 0, column = 31\<rparr> None)
       [Element (mk_props 2 (Num 2) ''p'' \<lparr>row = 0, column = 5\<rparr> \<lparr>row = 0, column = 15\<rparr> (Some 1))
          [mk_text 3 (Str ''2.0'') ''hi'' (Some 2)],
        Element (mk_props 4 (Num 3) ''q'' \<lparr>row = 0, column = 15\<rparr> \<lparr>row = 0, column = 25\<rparr> (Some 1))
          [mk_text 5 (Str ''3.0'') ''yo'' (Some 4)]]"
  by (simp add: updatePositions_def ex_retained_root_def ex_bang_def mk_props_def mk_text_def
        sign_def comparePoints_def update_pos_def rowChange_def columnChange_def Let_def)

lemma ex_updater_q_eq:
  "previousDOM ex_updater_q = Some (ex_retained\<lparr>root := updatePositions ex_retained_root ex_bang\<rparr>)"
  "changedTagID ex_updater_q = Num 3"
  "isIncremental ex_updater_q"
  "btext ex_updater_q = ''<q>yo!</q>''"
  "uerrors ex_updater_q = None"
  "usession ex_updater_q = session_on ''<div><p>hi</xp><q>yo!</q></div>''
      (Some (ex_retained\<lparr>root := updatePositions ex_retained_root ex_bang\<rparr>))"
  by (simp_all add: ex_updater_q_def DOMUpdater_def Let_def session_on_def ex_retained_def
        mutate_alias_def same_object_def updatePositions_ex_bang delta_text_def
        getNodeAtDocumentPos_def dangerous_chars_def,
      simp_all add: ex_bang_def ex_retained_root_def dangerous_chars_def comparePoints_def
        mk_props_def mk_text_def)

lemma ex_updater_q_run:
  "update ex_hash ex_parser ex_updater_q =
     Some (Inr (Some
       \<lparr>newDOM = ex_retained\<lparr>root := ex_spliced_root,
                   nodeMap := handleDeletions (mixin ex_map2 (nodeMap ex_new_q))
                                (buildNodeMap (set_parent None ex_old_q)) (nodeMap ex_new_q)\<rparr>,
        oldSubtree = Some \<lparr>root = set_parent None ex_old_q,
                           nodeMap = buildNodeMap (set_parent None ex_old_q), errors = None\<rparr>,
        newSubtree = ex_new_q\<lparr>root := set_parent (Some 1) (root ex_new_q)\<rparr>\<rparr>),
       ex_updater_q
         \<lparr>previousDOM := Some (ex_retained\<lparr>root := ex_spliced_root,
                   nodeMap := handleDeletions (mixin ex_map2 (nodeMap ex_new_q))
                                (buildNodeMap (set_parent None ex_old_q)) (nodeMap ex_new_q)\<rparr>),
          usession := session_on ''<div><p>hi</xp><q>yo!</q></div>''
            (Some (ex_retained\<lparr>root := ex_spliced_root,
                   nodeMap := handleDeletions (mixin ex_map2 (nodeMap ex_new_q))
                                (buildNodeMap (set_parent None ex_old_q)) (nodeMap ex_new_q)\<rparr>))\<rparr>)"
proof -
  let ?prev = "ex_retained\<lparr>root := updatePositions ex_retained_root ex_bang\<rparr>"
  have b: "ex_parser ex_updater_q = Inr (Some ex_new_q, None)"
    by (simp add: ex_parser_def ex_updater_q_eq)
  have c: "truthy (changedTagID ex_updater_q)" by (simp add: ex_updater_q_eq)
  have ob: "nodeMap ?prev (keyOf (changedTagID ex_updater_q)) = Some 4"
    by (simp add: ex_updater_q_eq ex_retained_def ex_map2_def show_int_def show_nat.simps)
  have old: "find_obj 4 (root ?prev) = Some ex_old_q"
    by (simp add: updatePositions_ex_bang ex_old_q_def mk_props_def mk_text_def)
  have par: "parent (props ex_old_q) = Some 1" by (simp add: ex_old_q_def mk_props_def)
  have pn: "find_obj 1 (root ?prev) =
      Some (Element (mk_props 1 (Num 1) ''div'' \<lparr>row = 0, column = 0\<rparr> \<lparr>row = 0, column = 31\<rparr> None)
       [Element (mk_props 2 (Num 2) ''p'' \<lparr>row = 0, column = 5\<rparr> \<lparr>row = 0, column = 15\<rparr> (Some 1))
          [mk_text 3 (Str ''2.0'') ''hi'' (Some 2)], ex_old_q])"
    by (simp add: updatePositions_ex_bang ex_old_q_def mk_props_def)
  have ix: "indexOf [Element (mk_props 2 (Num 2) ''p'' \<lparr>row = 0, column = 5\<rparr> \<lparr>row = 0, column = 15\<rparr> (Some 1))
          [mk_text 3 (Str ''2.0'') ''hi'' (Some 2)], ex_old_q] 4 = Some 1"
    by (simp add: ex_old_q_def mk_props_def)
  have up: "update_parents ex_hash
              (map_obj 1 (set_child 1 (set_parent (Some 1) (root ex_new_q))) (root ?prev)) (Some 1)
            = Some (Inr ex_spliced_root)"
    by (subst update_parents_root)
       (simp_all add: updatePositions_ex_bang ex_new_q_def mk_props_def mk_text_def set_child_def
          set_parent_def node_update_def ex_hash_def ex_spliced_root_def, simp)
  have se: "mutate_alias (Some ?prev)
              (ex_retained\<lparr>root := ex_spliced_root,
                   nodeMap := handleDeletions (mixin ex_map2 (nodeMap ex_new_q))
                                (buildNodeMap (set_parent None ex_old_q)) (nodeMap ex_new_q)\<rparr>)
              (usession ex_updater_q)
            = session_on ''<div><p>hi</xp><q>yo!</q></div>''
            (Some (ex_retained\<lparr>root := ex_spliced_root,
                   nodeMap := handleDeletions (mixin ex_map2 (nodeMap ex_new_q))
                                (buildNodeMap (set_parent None ex_old_q)) (nodeMap ex_new_q)\<rparr>))"
    by (simp add: ex_updater_q_eq mutate_alias_def same_object_def session_on_def)
  have nm: "nodeMap ?prev = ex_map2" by (simp add: ex_retained_def)
  show ?thesis
    using b c ob old par pn ix up se nm
    by (simp add: update_def Let_def ex_updater_q_eq(1) ex_updater_q_eq(5))
qed

lemma ex_map2_new_q:
  "handleDeletions (mixin ex_map2 (nodeMap ex_new_q))
       (buildNodeMap (set_parent None ex_old_q)) (nodeMap ex_new_q) =
     [''1'' \<mapsto> 1, ''2'' \<mapsto> 2, ''2.0'' \<mapsto> 3, ''3'' \<mapsto> 14, ''3.0'' \<mapsto> 15]"
  by (rule ext)
     (simp add: handleDeletions_apply ex_map2_def ex_new_q_def buildNodeMap_def ex_old_q_def
        set_parent_def mk_props_def mk_text_def domIff show_int_def show_nat.simps)

lemma sdom_session_on: "sdom (session_on txt d) = d"
  by (simp add: session_on_def)

lemma session_on_sdom: "(session_on txt d)\<lparr>sdom := d'\<rparr> = session_on txt d'"
  by (simp add: session_on_def)

lemma ex_step2:
  "getUnappliedEditList ex_hash ex_parser ex_domdiff
       (session_on ''<div><p>hi</xp><q>yo!</q></div>'' (Some ex_retained)) (Some ex_bang) =
     Some (Inr \<lparr>r_errors = None, r_dom = Some ex_spliced,
                 r_edits = Some (Some [''3'', ''3.0''], [''3'', ''3.0'']),
                 r_wasIncremental = Some True\<rparr>,
           session_on ''<div><p>hi</xp><q>yo!</q></div>'' (Some ex_spliced))"
proof -
  have sp: "ex_retained\<lparr>root := ex_spliced_root,
                   nodeMap := [''1'' \<mapsto> 1, ''2'' \<mapsto> 2, ''2.0'' \<mapsto> 3, ''3'' \<mapsto> 14, ''3.0'' \<mapsto> 15]\<rparr>
            = ex_spliced"
    by (simp add: ex_retained_def ex_spliced_def)
  have k1: "keys ex_old_q = [''3'', ''3.0'']"
    by (simp add: keys_def ex_old_q_def mk_props_def mk_text_def show_int_def
          show_nat.simps)
  have k2: "keys (root ex_new_q) = [''3'', ''3.0'']"
    by (simp add: keys_def ex_new_q_def mk_props_def mk_text_def show_int_def
          show_nat.simps)
  have up: "update ex_hash ex_parser ex_updater_q =
     Some (Inr (Some
       \<lparr>newDOM = ex_spliced,
        oldSubtree = Some \<lparr>root = set_parent None ex_old_q,
                           nodeMap = buildNodeMap (set_parent None ex_old_q), errors = None\<rparr>,
        newSubtree = ex_new_q\<lparr>root := set_parent (Some 1) (root ex_new_q)\<rparr>\<rparr>),
       ex_updater_q
         \<lparr>previousDOM := Some ex_spliced,
          usession := session_on ''<div><p>hi</xp><q>yo!</q></div>'' (Some ex_spliced)\<rparr>)"
    using ex_updater_q_run by (simp only: ex_map2_new_q sp)
  show ?thesis
    by (simp add: getUnappliedEditList_def updateDOM_def Let_def ex_updater_q_def[symmetric]
          up ex_domdiff_def keys_set_parent k1 k2 ex_updater_q_eq same_object_def mutate_alias_def
          sdom_session_on session_on_sdom)
qed

lemma updatePositions_ex_add_i: "updatePositions ex_retained_root ex_add_i = ex_retained_i_root"
  by (simp add: updatePositions_def ex_retained_root_def ex_add_i_def mk_props_def mk_text_def
        sign_def comparePoints_def update_pos_def rowChange_def columnChange_def Let_def
        ex_retained_i_root_def)

lemma ex_step2i:
  "getUnappliedEditList ex_hash ex_parser ex_domdiff
       (session_on ''<div><p>hi</xp><q>yo<i></i></q></div>'' (Some ex_retained)) (Some ex_add_i) =
     Some (Inr \<lparr>r_errors = Some [''unbalanced''], r_dom = None, r_edits = None,
                 r_wasIncremental = None\<rparr>,
           session_on ''<div><p>hi</xp><q>yo<i></i></q></div>'' (Some ex_retained_i))"
proof -
  let ?s = "session_on ''<div><p>hi</xp><q>yo<i></i></q></div>'' (Some ex_retained)"
  have s: "sdom ?s = Some ex_retained" by (simp add: session_on_def)
  have bt: "btext (DOMUpdater (Some ex_retained) ?s (Some ex_add_i))
              = ''<div><p>hi</xp><q>yo<i></i></q></div>''"
    by (simp add: DOMUpdater_def Let_def session_on_def ex_retained_def
        mutate_alias_def same_object_def delta_text_def ex_add_i_def dangerous_chars_def)
  have b: "ex_parser (DOMUpdater (Some ex_retained) ?s (Some ex_add_i)) = Inr (None, Some [''unbalanced''])"
    by (simp add: ex_parser_def bt)
  show ?thesis
    using failed_parse_keeps_tree[where build = ex_parser and hash = ex_hash
            and domdiff = ex_domdiff, OF s b]
    by (simp add: ex_retained_def updatePositions_ex_add_i session_on_def ex_retained_i_def)
qed

lemma updatePositions_ex_unbreak:
  "updatePositions ex_retained_i_root ex_unbreak =
     Element (mk_props 1 (Num 1) ''div'' \<lparr>row = 0, column = 0\<rparr> \<lparr>row = 0, column = 36\<rparr> None)
       [ex_old_p3,
        Element (mk_props 4 (Num 3) ''q'' \<lparr>row = 0, column = 14\<rparr> \<lparr>row = 0, column = 30\<rparr> (Some 1))
          [mk_text 5 (Str ''3.0'') ''yo'' (Some 4)]]"
  by (simp add: updatePositions_def ex_retained_i_root_def ex_unbreak_def mk_props_def mk_text_def
        sign_def comparePoints_def update_pos_def rowChange_def columnChange_def Let_def ex_old_p3_def)

lemma ex_updater_p_eq:
  "previousDOM ex_updater_p = Some (ex_retained_i\<lparr>root := updatePositions ex_retained_i_root ex_unbreak\<rparr>)"
  "changedTagID ex_updater_p = Num 2"
  "isIncremental ex_updater_p"
  "btext ex_updater_p = ''<p>hi</p>''"
  "uerrors ex_updater_p = None"
  "usession ex_updater_p = session_on ''<div><p>hi</p><q>yo<i></i></q></div>''
      (Some (ex_retained_i\<lparr>root := updatePositions ex_retained_i_root ex_unbreak\<rparr>))"
  by (simp_all add: ex_updater_p_def DOMUpdater_def Let_def session_on_def ex_retained_i_def
        mutate_alias_def same_object_def updatePositions_ex_unbreak delta_text_def
        getNodeAtDocumentPos_def dangerous_chars_def,
      simp_all add: ex_unbreak_def ex_retained_i_root_def ex_old_p3_def dangerous_chars_def
        comparePoints_def mk_props_def mk_text_def)

lemma ex_map2_new_p3:
  "handleDeletions (mixin ex_map2 (nodeMap ex_new_p3))
       (buildNodeMap (set_parent None ex_old_p3)) (nodeMap ex_new_p3) =
     [''1'' \<mapsto> 1, ''2'' \<mapsto> 16, ''2.0'' \<mapsto> 17, ''3'' \<mapsto> 4, ''3.0'' \<mapsto> 5]"
  by (rule ext)
     (simp add: handleDeletions_apply ex_map2_def ex_new_p3_def buildNodeMap_def ex_old_p3_def
        set_parent_def mk_props_def mk_text_def domIff show_int_def show_nat.simps)

lemma ex_updater_p_run:
  "update ex_hash ex_parser ex_updater_p =
     Some (Inr (Some
       \<lparr>newDOM = ex_caught,
        oldSubtree = Some \<lparr>root = set_parent None ex_old_p3,
                           nodeMap = buildNodeMap (set_parent None ex_old_p3), errors = None\<rparr>,
        newSubtree = ex_new_p3\<lparr>root := set_parent (Some 1) (root ex_new_p3)\<rparr>\<rparr>),
       ex_updater_p
         \<lparr>previousDOM := Some ex_caught,
          usession := session_on ''<div><p>hi</p><q>yo<i></i></q></div>'' (Some ex_caught)\<rparr>)"
proof -
  let ?prev = "ex_retained_i\<lparr>root := updatePositions ex_retained_i_root ex_unbreak\<rparr>"
  let ?q = "Element (mk_props 4 (Num 3) ''q'' \<lparr>row = 0, column = 14\<rparr> \<lparr>row = 0, column = 30\<rparr> (Some 1))
          [mk_text 5 (Str ''3.0'') ''yo'' (Some 4)]"
  let ?m = "handleDeletions (mixin ex_map2 (nodeMap ex_new_p3))
              (buildNodeMap (set_parent None ex_old_p3)) (nodeMap ex_new_p3)"
  have b: "ex_parser ex_updater_p = Inr (Some ex_new_p3, None)"
    by (simp add: ex_parser_def ex_updater_p_eq)
  have c: "truthy (changedTagID ex_updater_p)" by (simp add: ex_updater_p_eq)
  have ob: "nodeMap ?prev (keyOf (changedTagID ex_updater_p)) = Some 2"
    by (simp add: ex_updater_p_eq ex_retained_i_def ex_map2_def show_int_def show_nat.simps)
  have old: "find_obj 2 (root ?prev) = Some ex_old_p3"
    by (simp add: updatePositions_ex_unbreak ex_old_p3_def mk_props_def mk_text_def)
  have par: "parent (props ex_old_p3) = Some 1" by (simp add: ex_old_p3_def mk_props_def)
  have pn: "find_obj 1 (root ?prev) =
      Some (Element (mk_props 1 (Num 1) ''div'' \<lparr>row = 0, column = 0\<rparr> \<lparr>row = 0, column = 36\<rparr> None)
       [ex_old_p3, ?q])"
    by (simp add: updatePositions_ex_unbreak mk_props_def)
  have ix: "indexOf [ex_old_p3, ?q] 2 = Some 0"
    by (simp add: ex_old_p3_def mk_props_def)
  have up: "update_parents ex_hash
              (map_obj 1 (set_child 0 (set_parent (Some 1) (root ex_new_p3))) (root ?prev)) (Some 1)
            = Some (Inr ex_caught_root)"
    by (subst update_parents_root)
       (simp_all add: updatePositions_ex_unbreak ex_new_p3_def mk_props_def mk_text_def set_child_def
          set_parent_def node_update_def ex_hash_def ex_caught_root_def, simp)
  have sp: "ex_retained_i\<lparr>root := ex_caught_root, nodeMap := ?m\<rparr> = ex_caught"
    by (simp add: ex_map2_new_p3 ex_retained_i_def ex_caught_def)
  have se: "mutate_alias (Some ?prev) ex_caught (usession ex_updater_p)
            = session_on ''<div><p>hi</p><q>yo<i></i></q></div>'' (Some ex_caught)"
    by (simp add: ex_updater_p_eq mutate_alias_def same_object_def session_on_def
          ex_retained_i_def ex_caught_def updatePositions_ex_unbreak ex_caught_root_def mk_props_def)
  have nm: "nodeMap ?prev = ex_map2" by (simp add: ex_retained_i_def)
  show ?thesis
    using b c ob old par pn ix up se nm sp
    by (simp add: update_def Let_def ex_updater_p_eq(1) ex_updater_p_eq(5))
qed

lemma ex_step3i:
  "getUnappliedEditList ex_hash ex_parser ex_domdiff
       (session_on ''<div><p>hi</p><q>yo<i></i></q></div>'' (Some ex_retained_i)) (Some ex_unbreak) =
     Some (Inr \<lparr>r_errors = None, r_dom = Some ex_caught,
                 r_edits = Some (Some [''2'', ''2.0''], [''2'', ''2.0'']),
                 r_wasIncremental = Some True\<rparr>,
           session_on ''<div><p>hi</p><q>yo<i></i></q></div>'' (Some ex_caught))"
proof -
  have k1: "keys ex_old_p3 = [''2'', ''2.0'']"
    by (simp add: keys_def ex_old_p3_def mk_props_def mk_text_def show_int_def show_nat.simps)
  have k2: "keys (root ex_new_p3) = [''2'', ''2.0'']"
    by (simp add: keys_def ex_new_p3_def mk_props_def mk_text_def show_int_def show_nat.simps)
  show ?thesis
    by (simp add: getUnappliedEditList_def updateDOM_def Let_def ex_updater_p_def[symmetric]
          ex_updater_p_run ex_domdiff_def keys_set_parent k1 k2 ex_updater_p_eq same_object_def
          mutate_alias_def sdom_session_on session_on_sdom)
qed

text \<open>
  Claim C5. The comment of \<open>getUnappliedEditList\<close> says what the claim says: while the
  document contains invalid HTML no edits are generated, and the first call on a valid
  document gives the edits that catch up with everything. The code does this only when
  the parse it attempts is the one that fails. After \<open>x\<close> has broken the closing tag of the
  \<open>p\<close> (no edit script, the tree kept with its positions shifted), the whole text cannot
  be parsed; yet inserting \<open>!\<close> into the \<open>q\<close> parses the span of the \<open>q\<close> only, and the call
  returns an edit script and a tree that becomes the cached one. And when \<^verbatim>\<open><i></i>\<close> is
  inserted into the \<open>q\<close> instead (no edit script: the whole text is parsed and fails), the
  call that repairs the closing tag parses the span of the \<open>p\<close> only: the document is
  valid again and has an \<open>i\<close>, but the edit script is about the \<open>p\<close> and the cached tree
  has no \<open>i\<close>.
\<close>

theorem edits_while_unparsable:
  "getUnappliedEditList ex_hash ex_parser ex_domdiff
       (session_on ''<div><p>hi</xp><q>yo</q></div>'' (Some ex_dom2)) (Some ex_break) =
     Some (Inr \<lparr>r_errors = Some [''unbalanced''], r_dom = None, r_edits = None,
                 r_wasIncremental = None\<rparr>,
           session_on ''<div><p>hi</xp><q>yo</q></div>'' (Some ex_retained))
   \<and> ex_parser (DOMUpdater (Some ex_retained)
                  (session_on ''<div><p>hi</xp><q>yo!</q></div>'' (Some ex_retained)) None)
       = Inr (None, Some [''unbalanced''])
   \<and> getUnappliedEditList ex_hash ex_parser ex_domdiff
       (session_on ''<div><p>hi</xp><q>yo!</q></div>'' (Some ex_retained)) (Some ex_bang) =
     Some (Inr \<lparr>r_errors = None, r_dom = Some ex_spliced,
                 r_edits = Some (Some [''3'', ''3.0''], [''3'', ''3.0'']),
                 r_wasIncremental = Some True\<rparr>,
           session_on ''<div><p>hi</xp><q>yo!</q></div>'' (Some ex_spliced))
   \<and> getUnappliedEditList ex_hash ex_parser ex_domdiff
       (session_on ''<div><p>hi</xp><q>yo<i></i></q></div>'' (Some ex_retained)) (Some ex_add_i) =
     Some (Inr \<lparr>r_errors = Some [''unbalanced''], r_dom = None, r_edits = None,
                 r_wasIncremental = None\<rparr>,
           session_on ''<div><p>hi</xp><q>yo<i></i></q></div>'' (Some ex_retained_i))
   \<and> getUnappliedEditList ex_hash ex_parser ex_domdiff
       (session_on ''<div><p>hi</p><q>yo<i></i></q></div>'' (Some ex_retained_i)) (Some ex_unbreak) =
     Some (Inr \<lparr>r_errors = None, r_dom = Some ex_caught,
                 r_edits = Some (Some [''2'', ''2.0''], [''2'', ''2.0'']),
                 r_wasIncremental = Some True\<rparr>,
           session_on ''<div><p>hi</p><q>yo<i></i></q></div>'' (Some ex_caught))
   \<and> ex_parser (DOMUpdater (Some ex_caught)
                  (session_on ''<div><p>hi</p><q>yo<i></i></q></div>'' (Some ex_caught)) None)
       = Inr (Some ex_full3, None)
   \<and> keys (root ex_full3) = [''1'', ''2'', ''2.0'', ''3'', ''3.0'', ''4'']
   \<and> keys (root ex_caught) = [''1'', ''2'', ''2.0'', ''3'', ''3.0'']"
proof -
  have a: "ex_parser (DOMUpdater (Some ex_retained)
                  (session_on ''<div><p>hi</xp><q>yo!</q></div>'' (Some ex_retained)) None)
       = Inr (None, Some [''unbalanced''])"
    by (simp add: ex_parser_def DOMUpdater_def Let_def session_on_def mutate_alias_def
          same_object_def)
  have b: "ex_parser (DOMUpdater (Some ex_caught)
                  (session_on ''<div><p>hi</p><q>yo<i></i></q></div>'' (Some ex_caught)) None)
       = Inr (Some ex_full3, None)"
    by (simp add: ex_parser_def DOMUpdater_def Let_def session_on_def mutate_alias_def
          same_object_def)
  have c: "keys (root ex_full3) = [''1'', ''2'', ''2.0'', ''3'', ''3.0'', ''4'']"
    by (simp add: keys_def ex_full3_def mk_props_def mk_text_def show_int_def show_nat.simps)
  have d: "keys (root ex_caught) = [''1'', ''2'', ''2.0'', ''3'', ''3.0'']"
    by (simp add: keys_def ex_caught_def ex_caught_root_def mk_props_def mk_text_def show_int_def
          show_nat.simps)
  show ?thesis
    by (simp only: ex_step1 ex_step2 ex_step2i ex_step3i a b c d simp_thms)
qed

end
